theory Spec2Isabelle
  imports Complex_Main "HOL-Library.List_Lexorder" "HOL-Library.AList"
begin

section \<open>Python strings\<close>

text \<open>
  A Python \<open>str\<close> is a sequence of Unicode code points. A code point is modelled as a
  natural number and a string as a list of them, so that \<open>len\<close> counts code points and
  the order on strings (library theory \<open>List_Lexorder\<close>) is the lexicographic order by code
  point that Python's \<open>sorted\<close> uses. \<open>py\<close> turns an ASCII literal into such a string.
\<close>

type_synonym py_char = nat
type_synonym py_str = "nat list"

definition py :: "string \<Rightarrow> py_str" where
  "py s = map of_char s"

text \<open>The backslash cannot be written inside a literal; \<open>bs\<close> is the one-character string.\<close>

definition bs :: py_str where
  "bs = [92]"

text \<open>
  \<open>str.isspace\<close> on one code point, which is also the class \<open>\s\<close> of \<open>re\<close> on \<open>str\<close>
  patterns and the set that \<open>str.strip()\<close> and \<open>str.split()\<close> remove: U+0009..U+000D,
  U+001C..U+0020, U+0085, U+00A0, U+1680, U+2000..U+200A, U+2028, U+2029, U+202F, U+205F,
  U+3000.
\<close>

definition isspace :: "py_char \<Rightarrow> bool" where
  "isspace c \<longleftrightarrow>
     (9 \<le> c \<and> c \<le> 13) \<or> (28 \<le> c \<and> c \<le> 32) \<or> c = 133 \<or> c = 160 \<or> c = 5760 \<or>
     (8192 \<le> c \<and> c \<le> 8202) \<or> c = 8232 \<or> c = 8233 \<or> c = 8239 \<or> c = 8287 \<or> c = 12288"

text \<open>\<open>s.strip()\<close>: leading and trailing whitespace removed.\<close>

definition strip :: "py_str \<Rightarrow> py_str" where
  "strip s = rev (dropWhile isspace (rev (dropWhile isspace s)))"

text \<open>
  \<open>re.sub(r'C+', r, text)\<close> for a one-character class \<open>C\<close> and a one-character
  replacement \<open>r\<close>: every maximal run of characters of the class becomes one \<open>r\<close>. The
  source uses it with \<open>C = \n\<close>, \<open>r = '\n'\<close> and with \<open>C = \s\<close>, \<open>r = ' '\<close>.
\<close>

function sub_runs :: "(py_char \<Rightarrow> bool) \<Rightarrow> py_char \<Rightarrow> py_str \<Rightarrow> py_str" where
  "sub_runs C r [] = []"
| "sub_runs C r (c # cs) =
     (if C c then r # sub_runs C r (dropWhile C cs) else c # sub_runs C r cs)"
  by pat_completeness auto
termination
  by (relation "measure (\<lambda>(C, r, s). length s)")
     (auto simp: less_Suc_eq_le length_dropWhile_le)

text \<open>\<open>s.split()\<close> with no argument: the maximal runs of non-whitespace characters.\<close>

function split_ws :: "py_str \<Rightarrow> py_str list" where
  "split_ws s =
     (case dropWhile isspace s of
        [] \<Rightarrow> []
      | c # cs \<Rightarrow> (c # takeWhile (\<lambda>d. \<not> isspace d) cs)
                 # split_ws (dropWhile (\<lambda>d. \<not> isspace d) cs))"
  by pat_completeness auto
termination
proof (relation "measure length")
  show "wf (measure length)" by simp
next
  fix s :: py_str and c cs
  assume eq: "dropWhile isspace s = c # cs"
  have "length (dropWhile (\<lambda>d. \<not> isspace d) cs) \<le> length cs"
    by (rule length_dropWhile_le)
  also have "length cs < length (dropWhile isspace s)"
    by (simp add: eq)
  also have "\<dots> \<le> length s"
    by (rule length_dropWhile_le)
  finally show "(dropWhile (\<lambda>d. \<not> isspace d) cs, s) \<in> measure length"
    by simp
qed

text \<open>\<open>sep.join(parts)\<close>.\<close>

fun join :: "py_str \<Rightarrow> py_str list \<Rightarrow> py_str" where
  "join sep [] = []"
| "join sep [p] = p"
| "join sep (p # q # ps) = p @ sep @ join sep (q # ps)"

section \<open>The runtime the analyzer calls into\<close>

text \<open>
  The exceptions that can reach the code. \<open>ReError\<close> is \<open>re.error\<close>, raised when a
  pattern does not compile; \<open>LibError\<close> stands for any exception of the PDF, DOCX and NLTK
  libraries; \<open>NotModelled\<close> is not a Python exception: the regular-expression model below
  answers with it on a pattern outside the syntax it covers.
\<close>

datatype py_error =
    ReError
  | IndexError
  | AttributeError
  | KeyError
  | UnicodeDecodeError
  | LookupError
  | ZeroDivisionError
  | LibError py_str
  | NotModelled

datatype re_flag = NOFLAG | IGNORECASE

text \<open>
  A match object, as far as the code reads it: the texts of the capturing groups
  \<open>1, 2, \<dots>\<close>, \<open>None\<close> for a group that took no part in the match.
\<close>

type_synonym re_match = "py_str option list"

text \<open>
  \<open>m.group(1)\<close>: \<open>IndexError\<close> when the pattern has no group, \<open>None\<close> when group 1
  took no part.
\<close>

definition group1 :: "re_match \<Rightarrow> py_error + py_str option" where
  "group1 m = (case m of [] \<Rightarrow> Inl IndexError | g # _ \<Rightarrow> Inr g)"

type_synonym bytes = "nat list"

text \<open>
  What the code takes from outside the repository, as an environment passed to every
  function that uses it:
  \<^item> \<open>uc_isprintable\<close>, \<open>uc_lower\<close>: the Unicode tables behind \<open>str.isprintable\<close> and
    \<open>str.lower\<close> outside ASCII (the ASCII part is written out below);
  \<^item> \<open>re_finditer\<close>: \<open>re.finditer(pattern, string, flags)\<close>, the matches in scan order, or
    the exception raised on compiling the pattern;
  \<^item> \<open>PdfReader\<close>: \<open>PyPDF2.PdfReader\<close> on the bytes of a file, giving for each page what
    \<open>extract_text()\<close> returns or raises;
  \<^item> \<open>Document\<close>: \<open>docx.Document\<close>, giving the text of each paragraph;
  \<^item> \<open>decode_utf8\<close>: \<open>bytes.decode('utf-8')\<close>;
  \<^item> \<open>sent_tokenize\<close>: NLTK's sentence tokenizer (it raises \<open>LookupError\<close> when its data
    was never downloaded);
  \<^item> \<open>truediv\<close>: the float that \<open>a / b\<close> gives for integers with \<open>b\<close> not zero, the
    double nearest to the quotient; a float is kept as the rational number it is;
  \<^item> \<open>strftime_now\<close>, \<open>format_1f\<close>: the rendered wall clock and the \<open>:.1f\<close> format of a
    float, both used by \<open>format_summary\<close> only.
\<close>

record env =
  uc_isprintable :: "py_char \<Rightarrow> bool"
  uc_lower :: "py_str \<Rightarrow> py_str"
  re_finditer :: "py_str \<Rightarrow> py_str \<Rightarrow> re_flag \<Rightarrow> py_error + re_match list"
  PdfReader :: "bytes \<Rightarrow> py_error + (py_error + py_str) list"
  Document :: "bytes \<Rightarrow> py_error + py_str list"
  decode_utf8 :: "bytes \<Rightarrow> py_error + py_str"
  sent_tokenize :: "py_str \<Rightarrow> py_error + py_str list"
  truediv :: "nat \<Rightarrow> nat \<Rightarrow> rat"
  strftime_now :: py_str
  format_1f :: "rat \<Rightarrow> py_str"

text \<open>\<open>c.isprintable()\<close>: among the ASCII characters, U+0020..U+007E.\<close>

definition isprintable :: "env \<Rightarrow> py_char \<Rightarrow> bool" where
  "isprintable e c = (if c < 128 then 32 \<le> c \<and> c < 127 else uc_isprintable e c)"

text \<open>
  \<open>s.lower()\<close>: in a string of ASCII characters, \<open>A..Z\<close> become \<open>a..z\<close>; any other
  string is left to the table (lower-casing is not character by character there).
\<close>

definition lower :: "env \<Rightarrow> py_str \<Rightarrow> py_str" where
  "lower e s =
     (if \<forall>c \<in> set s. c < 128 then map (\<lambda>c. if 65 \<le> c \<and> c \<le> 90 then c + 32 else c) s
      else uc_lower e s)"

section \<open>Text normalisation: \<open>_clean_text\<close>\<close>

definition clean_text :: "env \<Rightarrow> py_str \<Rightarrow> py_str" where
  "clean_text e text =
     (if text = [] then []
      else
        let text = sub_runs (\<lambda>c. c = 10) 10 text;
            text = sub_runs isspace 32 text;
            text = filter (\<lambda>c. isprintable e c \<or> c = 10) text
        in strip text)"

section \<open>A model of \<open>re\<close> for the pattern syntax of the default registry\<close>

text \<open>
  The registry holds pattern strings that the user can replace, so the extractor is
  defined over any \<open>re_finditer\<close>. To run it on concrete texts this section gives one
  instance, \<open>python_finditer\<close>, which follows CPython's matcher on the syntax the default
  patterns are written in: ASCII literals, \<open>.\<close>, \<open>\s\<close>, \<open>\n\<close>, sets \<open>[...]\<close> of these,
  \<open>$\<close>, \<open>|\<close>, groups \<open>(...)\<close> and \<open>(?:...)\<close>, and the lazy star \<open>*?\<close> on a single
  character. A pattern that ends inside a group, a set or an escape, or closes a group it
  never opened, is invalid as in Python; any other syntax is answered \<open>Unmodelled\<close>.
\<close>

text \<open>
  The compiled pattern. An item of a set is a literal character or the class \<open>\s\<close>; an
  atom matches one character: an item, \<open>.\<close>, or a set. \<open>Group n r\<close> is the capturing group
  number \<open>n\<close>; a group \<open>(?:...)\<close> is its content.
\<close>

datatype set_item = Chr py_char | Space
datatype atom = One set_item | Dot | InSet "set_item list"
datatype regex =
    Eps
  | Atom atom
  | LazyStar atom
  | AtEnd
  | Group nat regex
  | Seq regex regex
  | Alt regex regex

text \<open>
  A literal \<open>p\<close> of the pattern against the character \<open>x\<close> of the text. Under
  \<open>IGNORECASE\<close> an ASCII letter also matches its other case and the characters outside
  ASCII that Python equates with it: U+0130 and U+0131 with \<open>i\<close>, U+017F with \<open>s\<close>,
  U+212A with \<open>k\<close>.
\<close>

definition chr_matches :: "re_flag \<Rightarrow> py_char \<Rightarrow> py_char \<Rightarrow> bool" where
  "chr_matches f p x \<longleftrightarrow>
     x = p \<or>
     (f = IGNORECASE \<and>
       ((97 \<le> p \<and> p \<le> 122 \<and> x + 32 = p) \<or> (65 \<le> p \<and> p \<le> 90 \<and> x = p + 32) \<or>
        ((p = 73 \<or> p = 105) \<and> (x = 304 \<or> x = 305)) \<or>
        ((p = 83 \<or> p = 115) \<and> x = 383) \<or>
        ((p = 75 \<or> p = 107) \<and> x = 8490)))"

fun item_matches :: "re_flag \<Rightarrow> set_item \<Rightarrow> py_char \<Rightarrow> bool" where
  "item_matches f (Chr p) x = chr_matches f p x"
| "item_matches f Space x = isspace x"

text \<open>Without \<open>DOTALL\<close>, \<open>.\<close> matches every character but the newline.\<close>

fun atom_matches :: "re_flag \<Rightarrow> atom \<Rightarrow> py_char \<Rightarrow> bool" where
  "atom_matches f (One i) x = item_matches f i x"
| "atom_matches f Dot x = (x \<noteq> 10)"
| "atom_matches f (InSet is) x = list_ex (\<lambda>i. item_matches f i x) is"

text \<open>
  The matcher backtracks as Python's does: it takes the rest of the text, the groups
  captured so far and a continuation for what follows in the pattern, tries the
  alternatives from left to right and the lazy star from the shortest repetition on, and
  returns the first success. \<open>$\<close> without \<open>MULTILINE\<close> holds at the end of the text and
  before a newline that ends it.
\<close>

type_synonym caps = "(nat \<times> py_str) list"

fun lazy_star :: "re_flag \<Rightarrow> atom \<Rightarrow> py_str \<Rightarrow> (py_str \<Rightarrow> 'a option) \<Rightarrow> 'a option" where
  "lazy_star f a [] k = k []"
| "lazy_star f a (x # xs) k =
     (case k (x # xs) of
        Some y \<Rightarrow> Some y
      | None \<Rightarrow> if atom_matches f a x then lazy_star f a xs k else None)"

fun rmatch :: "re_flag \<Rightarrow> regex \<Rightarrow> py_str \<Rightarrow> caps \<Rightarrow> (py_str \<Rightarrow> caps \<Rightarrow> 'a option) \<Rightarrow> 'a option" where
  "rmatch f Eps s c k = k s c"
| "rmatch f (Atom a) s c k =
     (case s of [] \<Rightarrow> None | x # xs \<Rightarrow> if atom_matches f a x then k xs c else None)"
| "rmatch f (LazyStar a) s c k = lazy_star f a s (\<lambda>s'. k s' c)"
| "rmatch f AtEnd s c k = (if s = [] \<or> s = [10] then k s c else None)"
| "rmatch f (Group n r) s c k =
     rmatch f r s c (\<lambda>s' c'. k s' (AList.update n (take (length s - length s') s) c'))"
| "rmatch f (Seq r1 r2) s c k = rmatch f r1 s c (\<lambda>s' c'. rmatch f r2 s' c' k)"
| "rmatch f (Alt r1 r2) s c k =
     (case rmatch f r1 s c k of Some y \<Rightarrow> Some y | None \<Rightarrow> rmatch f r2 s c k)"

text \<open>
  One attempt at a position: the length of the match and its groups. With
  \<open>must_advance\<close> an empty match is refused, as after an empty match at the same position.
\<close>

definition try_match :: "re_flag \<Rightarrow> regex \<Rightarrow> bool \<Rightarrow> py_str \<Rightarrow> (nat \<times> caps) option" where
  "try_match f r must_advance s =
     rmatch f r s []
       (\<lambda>s' c. if must_advance \<and> length s' = length s then None
               else Some (length s - length s', c))"

text \<open>
  The scan of \<open>finditer\<close>, on the rest of the text: non-overlapping matches from left to
  right. \<open>skip\<close> characters belong to the last match; after an empty match the same
  position is tried once more for a non-empty one.
\<close>

fun scan :: "re_flag \<Rightarrow> regex \<Rightarrow> nat \<Rightarrow> py_str \<Rightarrow> caps list" where
  "scan f r (Suc k) [] = []"
| "scan f r (Suc k) (x # xs) = scan f r k xs"
| "scan f r 0 [] = (case try_match f r False [] of None \<Rightarrow> [] | Some (n, c) \<Rightarrow> [c])"
| "scan f r 0 (x # xs) =
     (case try_match f r False (x # xs) of
        None \<Rightarrow> scan f r 0 xs
      | Some (0, c) \<Rightarrow>
          c # (case try_match f r True (x # xs) of
                 None \<Rightarrow> scan f r 0 xs
               | Some (n, c') \<Rightarrow> c' # scan f r (n - 1) xs)
      | Some (Suc n, c) \<Rightarrow> c # scan f r n xs)"

text \<open>
  Compilation reads the pattern from left to right with a stack of the groups that are
  open; a frame holds the number of its group (\<open>None\<close> for \<open>(?:\<close> and for the top level),
  the alternatives that are complete and the items of the current one, both in reverse.
  \<open>Compiled n r\<close> has \<open>n\<close> capturing groups.
\<close>

datatype compiled = Compiled nat regex | Invalid | Unmodelled

datatype mode = Normal | Escape | Opened | OpenedQ | Starred
  | SetBody "set_item list" | SetEscape "set_item list"

type_synonym frame = "nat option \<times> regex list \<times> regex list"

datatype pstate = Run mode nat frame "frame list" | Stop compiled

fun mk_seq :: "regex list \<Rightarrow> regex" where
  "mk_seq [] = Eps"
| "mk_seq [r] = r"
| "mk_seq (r # rs) = Seq r (mk_seq rs)"

fun mk_alt :: "regex list \<Rightarrow> regex" where
  "mk_alt [] = Eps"
| "mk_alt [r] = r"
| "mk_alt (r # rs) = Alt r (mk_alt rs)"

definition close_frame :: "frame \<Rightarrow> regex" where
  "close_frame fr =
     (case fr of (g, alts, cur) \<Rightarrow>
        (let r = mk_alt (rev (mk_seq (rev cur) # alts))
         in case g of None \<Rightarrow> r | Some n \<Rightarrow> Group n r))"

definition push :: "regex \<Rightarrow> nat \<Rightarrow> frame \<Rightarrow> frame list \<Rightarrow> pstate" where
  "push r n fr st = (case fr of (g, alts, cur) \<Rightarrow> Run Normal n (g, alts, r # cur) st)"

text \<open>
  A character outside sets and escapes: \<open>( ) | . $ \ [ *\<close> have their meaning, the other
  special characters \<open>+ ? { } ] ^\<close> and characters outside ASCII are not covered, any
  other character is a literal. A star is covered after a one-character atom only.
\<close>

definition normal_step :: "py_char \<Rightarrow> nat \<Rightarrow> frame \<Rightarrow> frame list \<Rightarrow> pstate" where
  "normal_step c n fr st =
     (if c = 40 then Run Opened n fr st
      else if c = 41 then
        (case st of [] \<Rightarrow> Stop Invalid | outer # st' \<Rightarrow> push (close_frame fr) n outer st')
      else if c = 124 then
        (case fr of (g, alts, cur) \<Rightarrow> Run Normal n (g, mk_seq (rev cur) # alts, []) st)
      else if c = 46 then push (Atom Dot) n fr st
      else if c = 36 then push AtEnd n fr st
      else if c = 92 then Run Escape n fr st
      else if c = 91 then Run (SetBody []) n fr st
      else if c = 42 then
        (case fr of (g, alts, Atom a # cur) \<Rightarrow> Run Starred n fr st | _ \<Rightarrow> Stop Unmodelled)
      else if c \<in> {43, 63, 123, 125, 93, 94} \<or> 128 \<le> c then Stop Unmodelled
      else push (Atom (One (Chr c))) n fr st)"

text \<open>
  The other modes: after a backslash (\<open>\s\<close> and \<open>\n\<close> are covered), after \<open>(\<close> and
  \<open>(?\<close>, after a star (which must be followed by \<open>?\<close>), and inside a set.
\<close>

fun step :: "pstate \<Rightarrow> py_char \<Rightarrow> pstate" where
  "step (Stop x) c = Stop x"
| "step (Run Normal n fr st) c = normal_step c n fr st"
| "step (Run Escape n fr st) c =
     (if c = 115 then push (Atom (One Space)) n fr st
      else if c = 110 then push (Atom (One (Chr 10))) n fr st
      else Stop Unmodelled)"
| "step (Run Opened n fr st) c =
     (if c = 63 then Run OpenedQ n fr st
      else normal_step c (Suc n) (Some (Suc n), [], []) (fr # st))"
| "step (Run OpenedQ n fr st) c =
     (if c = 58 then Run Normal n (None, [], []) (fr # st) else Stop Unmodelled)"
| "step (Run Starred n fr st) c =
     (case fr of
        (g, alts, Atom a # cur) \<Rightarrow>
          if c = 63 then Run Normal n (g, alts, LazyStar a # cur) st else Stop Unmodelled
      | _ \<Rightarrow> Stop Unmodelled)"
| "step (Run (SetBody is) n fr st) c =
     (if c = 93 then (if is = [] then Stop Unmodelled else push (Atom (InSet (rev is))) n fr st)
      else if c = 92 then Run (SetEscape is) n fr st
      else if c \<in> {91, 94, 45, 38, 126, 124} \<or> 128 \<le> c then Stop Unmodelled
      else Run (SetBody (Chr c # is)) n fr st)"
| "step (Run (SetEscape is) n fr st) c =
     (if c = 115 then Run (SetBody (Space # is)) n fr st
      else if c = 110 then Run (SetBody (Chr 10 # is)) n fr st
      else Stop Unmodelled)"

text \<open>
  At the end of the pattern every group must be closed; ending inside a set, an escape
  or the head of a group is an error as in Python. A star at the very end is a greedy
  one, which is not covered.
\<close>

fun finish :: "pstate \<Rightarrow> compiled" where
  "finish (Stop x) = x"
| "finish (Run Normal n fr []) = Compiled n (close_frame fr)"
| "finish (Run Starred n fr st) = Unmodelled"
| "finish (Run m n fr st) = Invalid"

definition re_compile :: "py_str \<Rightarrow> compiled" where
  "re_compile p = finish (foldl step (Run Normal 0 (None, [], []) []) p)"

text \<open>The match object: the texts of the groups \<open>1..n\<close>.\<close>

definition groups_of :: "nat \<Rightarrow> caps \<Rightarrow> re_match" where
  "groups_of n c = map (map_of c) [1..<Suc n]"

definition python_finditer :: "py_str \<Rightarrow> py_str \<Rightarrow> re_flag \<Rightarrow> py_error + re_match list" where
  "python_finditer p s f =
     (case re_compile p of
        Compiled n r \<Rightarrow> Inr (map (groups_of n) (scan f r 0 s))
      | Invalid \<Rightarrow> Inl ReError
      | Unmodelled \<Rightarrow> Inl NotModelled)"

text \<open>
  For the statements about the default patterns: \<open>binds n r\<close> says that the group \<open>n\<close>
  lies on every way through \<open>r\<close>, so that it takes part in every match, and
  \<open>always_group1\<close> that the pattern compiles to such an expression for its group 1.
\<close>

fun binds :: "nat \<Rightarrow> regex \<Rightarrow> bool" where
  "binds n Eps = False"
| "binds n (Atom a) = False"
| "binds n (LazyStar a) = False"
| "binds n AtEnd = False"
| "binds n (Group m r) = (m = n \<or> binds n r)"
| "binds n (Seq r1 r2) = (binds n r1 \<or> binds n r2)"
| "binds n (Alt r1 r2) = (binds n r1 \<and> binds n r2)"

definition always_group1 :: "py_str \<Rightarrow> bool" where
  "always_group1 p =
     (case re_compile p of Compiled n r \<Rightarrow> 1 \<le> n \<and> binds 1 r | _ \<Rightarrow> False)"

section \<open>The analyzer: \<open>MedicalReportAnalyzer\<close>\<close>

text \<open>
  A Python \<open>dict\<close> is an association list in insertion order: \<open>d[k] = v\<close> is
  \<open>AList.update k v d\<close> (in place for a key that is there, at the end for a new one),
  \<open>d[k]\<close> is \<open>map_of d k\<close> with \<open>KeyError\<close> for \<open>None\<close>, \<open>d.items()\<close> is the list.
\<close>

type_synonym findings = "(py_str \<times> py_str list) list"

record metadata =
  word_count :: nat
  character_count :: nat
  sentence_count :: nat

record report =
  report_name :: py_str
  report_content :: py_str
  report_date :: py_str
  report_type :: py_str
  key_findings :: findings
  metadata :: metadata

record summary =
  total_reports :: nat
  report_types :: "(py_str \<times> nat) list"
  report_dates :: "py_str list"
  summary_findings :: findings
  total_word_count :: nat
  avg_sentences_per_report :: rat

text \<open>The object itself; \<open>summary = None\<close> is the empty dict \<open>{}\<close> it starts with.\<close>

record analyzer =
  reports :: "report list"
  summary :: "summary option"
  findings_patterns :: "(py_str \<times> py_str) list"

text \<open>An uploaded file: its name and its bytes.\<close>

record uploaded_file =
  fname :: py_str
  fdata :: bytes

text \<open>What the code shows through \<open>st.warning\<close> and \<open>st.error\<close>.\<close>

datatype st_msg =
    Unsupported_file_format py_str
  | Error_processing_file py_str py_error
  | Failed_to_process py_str

definition categories :: "py_str list" where
  "categories =
     [py ''diagnoses'', py ''medications'', py ''vitals'', py ''lab_results'',
      py ''recommendations'']"

text \<open>\<open>__init__\<close>.\<close>

definition default_patterns :: "(py_str \<times> py_str) list" where
  "default_patterns =
     [(py ''diagnoses'',
       py ''(?:diagnosis|assessment|impression|diagnosed with)[:'' @ bs @ py ''s](.*?)(?:''
         @ bs @ py ''n|$)''),
      (py ''medications'',
       py ''(?:medication|drug|prescription|prescribed)[:'' @ bs @ py ''s](.*?)(?:''
         @ bs @ py ''n|$)''),
      (py ''vitals'',
       py ''(?:vital|measurement|blood pressure|temperature|pulse|height|weight)[:'' @ bs
         @ py ''s](.*?)(?:'' @ bs @ py ''n|$)''),
      (py ''lab_results'',
       py ''(?:lab|laboratory|test|result|blood work)[:'' @ bs @ py ''s](.*?)(?:''
         @ bs @ py ''n|$)''),
      (py ''recommendations'',
       py ''(?:recommendation|plan|follow up|advised)[:'' @ bs @ py ''s](.*?)(?:''
         @ bs @ py ''n|$)'')]"

definition init_analyzer :: analyzer where
  "init_analyzer = \<lparr>reports = [], summary = None, findings_patterns = default_patterns\<rparr>"

subsection \<open>\<open>extract_key_findings\<close>\<close>

text \<open>The dict \<open>findings\<close> as \<open>extract_key_findings\<close> creates it.\<close>

definition empty_findings :: findings where
  "empty_findings =
     [(py ''diagnoses'', []), (py ''medications'', []), (py ''vitals'', []),
      (py ''lab_results'', []), (py ''recommendations'', [])]"

text \<open>
  The loop over the matches of one pattern, \<open>acc\<close> being \<open>findings[category]\<close> so far.
  \<open>match.group(1).strip()\<close> raises \<open>IndexError\<close> on a pattern without a group and
  \<open>AttributeError\<close> on a group that took no part in the match.
\<close>

fun collect :: "py_str list \<Rightarrow> re_match list \<Rightarrow> py_error + py_str list" where
  "collect acc [] = Inr acc"
| "collect acc (m # ms) =
     (case group1 m of
        Inl err \<Rightarrow> Inl err
      | Inr None \<Rightarrow> Inl AttributeError
      | Inr (Some g) \<Rightarrow>
          (let text = strip g
           in if text \<noteq> [] \<and> length text > 2
              then collect (acc @ [strip (sub_runs isspace 32 text)]) ms
              else collect acc ms))"

text \<open>The loop over \<open>self.findings_patterns.items()\<close>.\<close>

fun extract_loop ::
  "env \<Rightarrow> py_str \<Rightarrow> (py_str \<times> py_str) list \<Rightarrow> findings \<Rightarrow> py_error + findings" where
  "extract_loop e content [] findings = Inr findings"
| "extract_loop e content ((category, pattern) # rest) findings =
     (case re_finditer e pattern content IGNORECASE of
        Inl err \<Rightarrow> Inl err
      | Inr matches \<Rightarrow>
          (case collect [] matches of
             Inl err \<Rightarrow> Inl err
           | Inr texts \<Rightarrow> extract_loop e content rest (AList.update category texts findings)))"

definition extract_key_findings :: "env \<Rightarrow> analyzer \<Rightarrow> py_str \<Rightarrow> py_error + findings" where
  "extract_key_findings e self content =
     (if content = [] then Inr empty_findings
      else extract_loop e content (findings_patterns self) empty_findings)"

subsection \<open>\<open>process_file\<close>\<close>

text \<open>
  \<open>Path(p).name\<close> and \<open>Path(p).suffix\<close> of \<open>pathlib\<close> on a POSIX path: the name is the last
  component that is neither empty nor \<open>.\<close>; the suffix starts at the last dot of the name,
  unless that dot is the first or the last character of the name.
\<close>

fun split_on :: "py_char \<Rightarrow> py_str \<Rightarrow> py_str list" where
  "split_on d [] = [[]]"
| "split_on d (c # cs) =
     (if c = d then [] # split_on d cs
      else (case split_on d cs of [] \<Rightarrow> [[c]] | w # ws \<Rightarrow> (c # w) # ws))"

definition path_name :: "py_str \<Rightarrow> py_str" where
  "path_name p =
     (case rev (filter (\<lambda>q. q \<noteq> [] \<and> q \<noteq> py ''.'') (split_on 47 p)) of
        [] \<Rightarrow> []
      | q # _ \<Rightarrow> q)"

definition suffix :: "py_str \<Rightarrow> py_str" where
  "suffix p =
     (let name = path_name p;
          ext = rev (takeWhile (\<lambda>c. c \<noteq> 46) (rev name))
      in if 46 \<in> set name \<and> ext \<noteq> [] \<and> length ext + 1 < length name then 46 # ext else [])"

text \<open>
  \<open>_extract_pdf_content\<close>: the generator calls \<open>extract_text()\<close> on every page and keeps
  the non-empty texts.
\<close>

fun page_texts :: "(py_error + py_str) list \<Rightarrow> py_error + py_str list" where
  "page_texts [] = Inr []"
| "page_texts (p # ps) =
     (case p of
        Inl err \<Rightarrow> Inl err
      | Inr t \<Rightarrow>
          (case page_texts ps of
             Inl err \<Rightarrow> Inl err
           | Inr ts \<Rightarrow> Inr (if t \<noteq> [] then t # ts else ts)))"

definition extract_pdf_content :: "env \<Rightarrow> uploaded_file \<Rightarrow> py_error + py_str" where
  "extract_pdf_content e file =
     (case PdfReader e (fdata file) of
        Inl err \<Rightarrow> Inl err
      | Inr pages \<Rightarrow>
          (case page_texts pages of Inl err \<Rightarrow> Inl err | Inr ts \<Rightarrow> Inr (join [10] ts)))"

definition extract_docx_content :: "env \<Rightarrow> uploaded_file \<Rightarrow> py_error + py_str" where
  "extract_docx_content e file =
     (case Document e (fdata file) of
        Inl err \<Rightarrow> Inl err
      | Inr paragraphs \<Rightarrow> Inr (join [10] (filter (\<lambda>t. t \<noteq> []) paragraphs)))"

text \<open>
  The \<open>if\<close>/\<open>elif\<close> chain of \<open>process_file\<close> on the lower-cased suffix: the text
  of the file or the exception of its reader, and \<open>None\<close> in the \<open>else\<close> branch, where no
  reader is called.
\<close>

definition read_content :: "env \<Rightarrow> py_str \<Rightarrow> uploaded_file \<Rightarrow> (py_error + py_str) option" where
  "read_content e file_ext file =
     (if file_ext = py ''.pdf'' then Some (extract_pdf_content e file)
      else if file_ext = py ''.txt'' then Some (decode_utf8 e (fdata file))
      else if file_ext \<in> set [py ''.doc'', py ''.docx'']
        then Some (extract_docx_content e file)
      else None)"

text \<open>
  \<open>process_file\<close> returns its boolean, the analyzer after the call and what it showed.
  \<open>now\<close> is \<open>datetime.now().isoformat()\<close> at the call. Every exception raised inside the
  \<open>try\<close> block ends in the \<open>except\<close> branch.
\<close>

definition process_file ::
  "env \<Rightarrow> py_str \<Rightarrow> uploaded_file \<Rightarrow> analyzer \<Rightarrow> bool \<times> analyzer \<times> st_msg list" where
  "process_file e now file self =
     (let file_ext = lower e (suffix (fname file))
      in case read_content e file_ext file of
           None \<Rightarrow> (False, self, [Unsupported_file_format file_ext])
         | Some (Inl err) \<Rightarrow> (False, self, [Error_processing_file (fname file) err])
         | Some (Inr raw) \<Rightarrow>
             (let content = clean_text e raw
              in case extract_key_findings e self content of
                   Inl err \<Rightarrow> (False, self, [Error_processing_file (fname file) err])
                 | Inr kf \<Rightarrow>
                     (case (if content \<noteq> [] then sent_tokenize e content else Inr []) of
                        Inl err \<Rightarrow> (False, self, [Error_processing_file (fname file) err])
                      | Inr sentences \<Rightarrow>
                          (True,
                           self\<lparr>reports := reports self @
                             [\<lparr>report_name = fname file, report_content = content,
                               report_date = now, report_type = file_ext,
                               key_findings = kf,
                               metadata = \<lparr>word_count = length (split_ws content),
                                            character_count = length content,
                                            sentence_count = length sentences\<rparr>\<rparr>]\<rparr>,
                           []))))"

text \<open>
  The loop of \<open>main\<close> behind the button "Process Files", over the uploaded files, each
  paired with the clock reading of its call.
\<close>

record session =
  session_analyzer :: analyzer
  processed_files :: "py_str list"
  shown :: "st_msg list"

fun process_files :: "env \<Rightarrow> (py_str \<times> uploaded_file) list \<Rightarrow> session \<Rightarrow> session" where
  "process_files e [] s = s"
| "process_files e ((now, file) # rest) s =
     (case process_file e now file (session_analyzer s) of
        (ok, self, msgs) \<Rightarrow>
          process_files e rest
            (if ok
             then s\<lparr>session_analyzer := self,
                    processed_files := processed_files s @ [fname file],
                    shown := shown s @ msgs\<rparr>
             else s\<lparr>session_analyzer := self,
                    shown := shown s @ msgs @ [Failed_to_process (fname file)]\<rparr>))"

text \<open>
  The handler of the button as a whole: before the loop it replaces the analyzer of the
  session by a fresh one, which holds the default patterns, and empties the list of
  processed files. So whatever the settings page or a loaded configuration wrote into
  \<open>findings_patterns\<close>, the files of the application are processed with the default
  patterns.
\<close>

definition process_button :: "env \<Rightarrow> (py_str \<times> uploaded_file) list \<Rightarrow> session \<Rightarrow> session" where
  "process_button e uploaded_files s =
     process_files e uploaded_files
       (s\<lparr>session_analyzer := init_analyzer, processed_files := []\<rparr>)"

subsection \<open>\<open>generate_summary\<close>\<close>

definition count_report_types :: "analyzer \<Rightarrow> (py_str \<times> nat) list" where
  "count_report_types self =
     foldl (\<lambda>type_counts r.
              AList.update (report_type r)
                ((case map_of type_counts (report_type r) of None \<Rightarrow> 0 | Some n \<Rightarrow> n) + 1)
                type_counts)
       [] (reports self)"

definition extract_report_dates :: "analyzer \<Rightarrow> py_str list" where
  "extract_report_dates self = map report_date (reports self)"

text \<open>
  \<open>a / b\<close> on integers: it raises on a zero divisor and gives the float of the runtime
  otherwise.
\<close>

definition py_div :: "env \<Rightarrow> nat \<Rightarrow> nat \<Rightarrow> py_error + rat" where
  "py_div e a b = (if b = 0 then Inl ZeroDivisionError else Inr (truediv e a b))"

text \<open>
  The inner loop \<open>summary['key_findings'][category].update(items)\<close> over the findings of
  one report, and the outer loop over the reports. A category that the summary does not
  have raises \<open>KeyError\<close>.
\<close>

fun update_sets ::
  "(py_str \<times> py_str set) list \<Rightarrow> findings \<Rightarrow> py_error + (py_str \<times> py_str set) list" where
  "update_sets sets [] = Inr sets"
| "update_sets sets ((category, items) # rest) =
     (case map_of sets category of
        None \<Rightarrow> Inl KeyError
      | Some S \<Rightarrow> update_sets (AList.update category (S \<union> set items) sets) rest)"

fun union_reports ::
  "(py_str \<times> py_str set) list \<Rightarrow> report list \<Rightarrow> py_error + (py_str \<times> py_str set) list" where
  "union_reports sets [] = Inr sets"
| "union_reports sets (r # rs) =
     (case update_sets sets (key_findings r) of
        Inl err \<Rightarrow> Inl err
      | Inr sets' \<Rightarrow> union_reports sets' rs)"

text \<open>\<open>str(n)\<close> for a natural number.\<close>

function str_of_nat :: "nat \<Rightarrow> py_str" where
  "str_of_nat n = (if n < 10 then [48 + n] else str_of_nat (n div 10) @ [48 + n mod 10])"
  by pat_completeness auto
termination
  by (relation "measure id") auto

definition format_list :: "py_str list \<Rightarrow> py_str" where
  "format_list items =
     (if items = [] then py ''- No findings in this category''
      else join [10] (map (\<lambda>item. py ''- '' @ item) items))"

definition lookup :: "('k \<times> 'v) list \<Rightarrow> 'k \<Rightarrow> py_error + 'v" where
  "lookup d k = (case map_of d k of None \<Rightarrow> Inl KeyError | Some v \<Rightarrow> Inr v)"

definition format_category :: "py_str \<Rightarrow> summary \<Rightarrow> py_str \<Rightarrow> py_error + py_str" where
  "format_category title s category =
     (case lookup (summary_findings s) category of
        Inl err \<Rightarrow> Inl err
      | Inr items \<Rightarrow> Inr (title @ [10] @ format_list items @ [10, 10]))"

fun concat_results :: "(py_error + py_str) list \<Rightarrow> py_error + py_str" where
  "concat_results [] = Inr []"
| "concat_results (x # xs) =
     (case x of
        Inl err \<Rightarrow> Inl err
      | Inr t \<Rightarrow> (case concat_results xs of Inl err \<Rightarrow> Inl err | Inr ts \<Rightarrow> Inr (t @ ts)))"

definition format_summary :: "env \<Rightarrow> analyzer \<Rightarrow> py_error + py_str" where
  "format_summary e self =
     (case summary self of
        None \<Rightarrow> Inr (py ''No summary available.'')
      | Some s \<Rightarrow>
          concat_results
            [Inr (py ''# Medical Report Summary'' @ [10]),
             Inr (py ''Generated: '' @ strftime_now e @ [10, 10]),
             Inr (py ''## Overview'' @ [10]),
             Inr (py ''- **Total Reports**: '' @ str_of_nat (total_reports s) @ [10]),
             Inr (py ''- **File Types**: '' @
                  join (py '', '')
                    (map (\<lambda>(ext, count). ext @ py '' ('' @ str_of_nat count @ py '')'')
                       (report_types s)) @ [10]),
             Inr (py ''- **Total Words**: '' @ str_of_nat (total_word_count s) @ [10]),
             Inr (py ''- **Avg. Sentences/Report**: '' @
                  format_1f e (avg_sentences_per_report s) @ [10, 10]),
             Inr (py ''## Key Findings'' @ [10, 10]),
             format_category (py ''### Diagnoses:'') s (py ''diagnoses''),
             format_category (py ''### Medications:'') s (py ''medications''),
             format_category (py ''### Vital Signs:'') s (py ''vitals''),
             format_category (py ''### Lab Results:'') s (py ''lab_results''),
             format_category (py ''### Recommendations:'') s (py ''recommendations''),
             Inr (py ''## Important Note'' @ [10]),
             Inr (py ''The information above is automatically extracted and may not be complete or accurate.'' @ [10]),
             Inr (py ''Please verify all findings with healthcare professionals.'' @ [10]),
             Inr (py ''        '')])"

text \<open>
  \<open>generate_summary\<close> returns the text and the analyzer, whose \<open>summary\<close> it has set; an
  exception leaves the analyzer as it was.
\<close>

definition generate_summary :: "env \<Rightarrow> analyzer \<Rightarrow> py_error + py_str \<times> analyzer" where
  "generate_summary e self =
     (if reports self = [] then Inr (py ''No reports have been processed yet.'', self)
      else
        case py_div e (sum_list (map (\<lambda>r. sentence_count (metadata r)) (reports self)))
                    (length (reports self)) of
          Inl err \<Rightarrow> Inl err
        | Inr avg \<Rightarrow>
            (case union_reports (map (\<lambda>c. (c, {})) categories) (reports self) of
               Inl err \<Rightarrow> Inl err
             | Inr sets \<Rightarrow>
                 (let self' = self\<lparr>summary := Some
                        \<lparr>total_reports = length (reports self),
                         report_types = count_report_types self,
                         report_dates = extract_report_dates self,
                         summary_findings =
                           map (\<lambda>(category, S). (category, sorted_list_of_set S)) sets,
                         total_word_count =
                           sum_list (map (\<lambda>r. word_count (metadata r)) (reports self)),
                         avg_sentences_per_report = avg\<rparr>\<rparr>
                  in case format_summary e self' of
                       Inl err \<Rightarrow> Inl err
                     | Inr text \<Rightarrow> Inr (text, self'))))"

definition clear_data :: "analyzer \<Rightarrow> analyzer" where
  "clear_data self = self\<lparr>reports := [], summary := None\<rparr>"

subsection \<open>A runtime for the examples\<close>

text \<open>
  The examples below are ASCII texts in \<open>.txt\<close> files, matched by the model of \<open>re\<close>
  above. The Unicode tables are not consulted on ASCII; the table of printable characters
  is the one of Latin-1. ASCII bytes decode to themselves and a text with the byte 255,
  which no UTF-8 text has, fails to decode; the PDF and DOCX readers and the decoding of
  other bytes are outside the examples. The sentence tokenizer is a stand-in that returns
  one sentence, and the quotient is exact, as Python's is when it is a double.
\<close>

definition example_env :: env where
  "example_env =
     \<lparr>uc_isprintable = (\<lambda>c. 161 \<le> c \<and> c \<le> 255 \<and> c \<noteq> 173),
      uc_lower = (\<lambda>s. s),
      re_finditer = python_finditer,
      PdfReader = (\<lambda>b. Inl NotModelled),
      Document = (\<lambda>b. Inl NotModelled),
      decode_utf8 =
        (\<lambda>b. if \<forall>c \<in> set b. c < 128 then Inr b
             else if 255 \<in> set b then Inl UnicodeDecodeError
             else Inl NotModelled),
      sent_tokenize = (\<lambda>s. Inr [s]),
      truediv = (\<lambda>a b. Fract (int a) (int b)),
      strftime_now = py ''2025-02-26 12:00:00'',
      format_1f = (\<lambda>q. py ''1.0'')\<rparr>"

text \<open>
  For the statements below: the pattern compiles and its matches in \<open>content\<close>, in scan
  order, have one group each, with the texts \<open>gs\<close>.
\<close>

text \<open>
  \<open>m.group(1)\<close> is a string: the pattern has a group 1 and it took part in the match.
  \<open>runs_through\<close>: the pattern compiles and every match of it in \<open>content\<close> is such a
  match, which is what the loop over the matches needs in order not to raise.
\<close>

definition has_group1 :: "re_match \<Rightarrow> bool" where
  "has_group1 m = (case m of Some g # _ \<Rightarrow> True | _ \<Rightarrow> False)"

definition runs_through :: "env \<Rightarrow> py_str \<Rightarrow> py_str \<Rightarrow> bool" where
  "runs_through e pattern content =
     (case re_finditer e pattern content IGNORECASE of
        Inl err \<Rightarrow> False
      | Inr matches \<Rightarrow> list_all has_group1 matches)"

definition single_group :: "env \<Rightarrow> py_str \<Rightarrow> py_str \<Rightarrow> py_str list \<Rightarrow> bool" where
  "single_group e pattern content gs \<longleftrightarrow>
     re_finditer e pattern content IGNORECASE = Inr (map (\<lambda>g. [Some g]) gs)"

section \<open>Properties\<close>

declare str_of_nat.simps [simp del] split_ws.simps [simp del]

subsection \<open>Exceptions of \<open>generate_summary\<close>\<close>

lemma update_sets_error: "update_sets sets kf = Inl err \<Longrightarrow> err = KeyError"
  by (induction sets kf rule: update_sets.induct) (auto split: option.splits)

lemma union_reports_error: "union_reports sets rs = Inl err \<Longrightarrow> err = KeyError"
  by (induction sets rs rule: union_reports.induct)
     (auto split: sum.splits dest: update_sets_error)

lemma concat_results_error: "concat_results xs = Inl err \<Longrightarrow> Inl err \<in> set xs"
  by (induction xs) (auto split: sum.splits)

lemma format_category_error: "format_category t s c = Inl err \<Longrightarrow> err = KeyError"
  by (auto simp: format_category_def lookup_def split: option.splits sum.splits)

lemma format_summary_error: "format_summary e self = Inl err \<Longrightarrow> err = KeyError"
  apply (cases "summary self")
   apply (simp add: format_summary_def)
  apply (simp only: format_summary_def option.case)
  apply (drule concat_results_error)
  apply (auto dest: format_category_error[OF sym])
  done

text \<open>
  Claim C9. \<open>generate_summary\<close> on an analyzer without reports returns the sentence
  "No reports have been processed yet." and leaves the analyzer as it is; and on no
  analyzer at all does it raise \<open>ZeroDivisionError\<close>: the division by the number of
  reports is reached with at least one report only.
\<close>

theorem generate_summary_no_reports:
  "(reports self = [] \<longrightarrow>
      generate_summary e self = Inr (py ''No reports have been processed yet.'', self)) \<and>
   generate_summary e self \<noteq> Inl ZeroDivisionError"
proof
  show "reports self = [] \<longrightarrow>
      generate_summary e self = Inr (py ''No reports have been processed yet.'', self)"
    by (simp add: generate_summary_def)
next
  show "generate_summary e self \<noteq> Inl ZeroDivisionError"
  proof
    assume a: "generate_summary e self = Inl ZeroDivisionError"
    then have ne: "reports self \<noteq> []"
      by (auto simp: generate_summary_def)
    with a show False
      by (auto simp: generate_summary_def py_div_def Let_def split: sum.splits
               dest: union_reports_error format_summary_error)
  qed
qed

theorem generate_summary_no_reports_witness:
  "reports init_analyzer = [] \<and>
   generate_summary example_env init_analyzer =
     Inr (py ''No reports have been processed yet.'', init_analyzer)"
  using generate_summary_no_reports [of init_analyzer example_env]
  by (simp add: init_analyzer_def)

subsection \<open>\<open>process_file\<close> and the list of reports\<close>

lemma process_file_cases:
  "process_file e now file self = (ok, self', msgs) \<Longrightarrow>
     (\<not> ok \<and> self' = self \<and> msgs \<noteq> []) \<or>
     (ok \<and> msgs = [] \<and>
      (\<exists>r. report_name r = fname file \<and> self' = self\<lparr>reports := reports self @ [r]\<rparr>))"
  unfolding process_file_def Let_def
  apply (auto split: option.splits sum.splits if_splits)
  apply (rule exI, rule conjI[rotated], rule refl, simp)+
  done

lemma process_file_patterns:
  "process_file e now file self = (ok, self', msgs) \<Longrightarrow>
     findings_patterns self' = findings_patterns self"
  by (drule process_file_cases) auto

lemma process_file_ok_patterns:
  assumes "findings_patterns a = findings_patterns b"
  shows "fst (process_file e now file a) = fst (process_file e now file b)"
proof -
  have eq: "\<And>c. extract_key_findings e a c = extract_key_findings e b c"
    by (simp add: extract_key_findings_def assms)
  show ?thesis
    unfolding process_file_def Let_def eq
    by (simp split: option.split sum.split)
qed

lemma process_files_patterns:
  "findings_patterns (session_analyzer (process_files e fs s)) =
     findings_patterns (session_analyzer s)"
proof (induction fs arbitrary: s)
  case Nil
  show ?case by simp
next
  case (Cons f fs)
  obtain now fl where f: "f = (now, fl)" by (cases f)
  obtain ok self' msgs where p: "process_file e now fl (session_analyzer s) = (ok, self', msgs)"
    by (cases "process_file e now fl (session_analyzer s)")
  show ?case
    using Cons.IH process_file_patterns [OF p] by (simp add: f p)
qed

lemma process_files_shown:
  "session_analyzer s = session_analyzer s' \<Longrightarrow> processed_files s = processed_files s' \<Longrightarrow>
     session_analyzer (process_files e fs s) = session_analyzer (process_files e fs s') \<and>
     processed_files (process_files e fs s) = processed_files (process_files e fs s')"
proof (induction fs arbitrary: s s')
  case Nil
  then show ?case by simp
next
  case (Cons f fs)
  obtain now fl where f: "f = (now, fl)" by (cases f)
  obtain ok self' msgs where p: "process_file e now fl (session_analyzer s) = (ok, self', msgs)"
    by (cases "process_file e now fl (session_analyzer s)")
  then have p': "process_file e now fl (session_analyzer s') = (ok, self', msgs)"
    using Cons.prems by simp
  show ?case
    unfolding f process_files.simps p p' prod.case
    by (rule Cons.IH) (simp_all add: Cons.prems)
qed

lemma process_files_skip_failed:
  assumes "\<not> fst (process_file e now file (session_analyzer s))"
  shows "session_analyzer (process_files e (before @ (now, file) # after) s) =
           session_analyzer (process_files e (before @ after) s) \<and>
         processed_files (process_files e (before @ (now, file) # after) s) =
           processed_files (process_files e (before @ after) s)"
  using assms
proof (induction before arbitrary: s)
  case Nil
  obtain ok self' msgs where p: "process_file e now file (session_analyzer s) = (ok, self', msgs)"
    by (cases "process_file e now file (session_analyzer s)")
  with Nil have "\<not> ok" by simp
  with process_file_cases [OF p] have "self' = session_analyzer s" by auto
  let ?s' = "s\<lparr>session_analyzer := self',
                  shown := shown s @ msgs @ [Failed_to_process (fname file)]\<rparr>"
  have "process_files e ((now, file) # after) s = process_files e after ?s'"
    using \<open>\<not> ok\<close> by (simp add: p)
  moreover have "session_analyzer ?s' = session_analyzer s" "processed_files ?s' = processed_files s"
    using \<open>self' = session_analyzer s\<close> by simp_all
  ultimately show ?case
    using process_files_shown [of ?s' s e after] by simp
next
  case (Cons f before)
  obtain t g where f: "f = (t, g)" by (cases f)
  obtain ok self' msgs where p: "process_file e t g (session_analyzer s) = (ok, self', msgs)"
    by (cases "process_file e t g (session_analyzer s)")
  have "findings_patterns self' = findings_patterns (session_analyzer s)"
    by (rule process_file_patterns [OF p])
  then have nf: "\<And>s'. session_analyzer s' = self' \<Longrightarrow>
      \<not> fst (process_file e now file (session_analyzer s'))"
    using Cons.prems process_file_ok_patterns [of self' "session_analyzer s" e now "file"]
    by simp
  show ?case
    unfolding f append_Cons process_files.simps p prod.case
    by (rule Cons.IH) (rule nf, simp)
qed

subsection \<open>Evaluation on examples\<close>

text \<open>
  Concrete runs are evaluated by rewriting with the definitions. The first example is a
  text file with one line, processed with the default patterns.
\<close>

lemmas re_eval = python_finditer_def re_compile_def normal_step_def push_def close_frame_def
  groups_of_def try_match_def chr_matches_def isspace_def py_def bs_def

lemmas run_eval = process_file_def read_content_def extract_key_findings_def example_env_def
  init_analyzer_def default_patterns_def empty_findings_def group1_def strip_def clean_text_def
  isprintable_def lower_def suffix_def path_name_def split_ws.simps Let_def

lemma example_note_processed:
  "process_file example_env (py ''2025-02-26T12:00:00'')
     \<lparr>fname = py ''note.txt'', fdata = py ''Plan: rest''\<rparr> init_analyzer =
   (True,
    init_analyzer\<lparr>reports :=
      [\<lparr>report_name = py ''note.txt'', report_content = py ''Plan: rest'',
        report_date = py ''2025-02-26T12:00:00'', report_type = py ''.txt'',
        key_findings =
          [(py ''diagnoses'', []), (py ''medications'', []), (py ''vitals'', []),
           (py ''lab_results'', []), (py ''recommendations'', [py ''rest''])],
        metadata = \<lparr>word_count = 2, character_count = 10, sentence_count = 1\<rparr>\<rparr>]\<rparr>,
    [])"
  by (simp add: re_eval run_eval)

lemma example_xls: "lower example_env (suffix (py ''report.xls'')) = py ''.xls''"
  by (simp add: run_eval py_def)

lemma example_clean:
  "clean_text e (py ''Diagnosis: Hypertension\<newline>Medication: Lisinopril 10mg\<newline>'') =
     py ''Diagnosis: Hypertension Medication: Lisinopril 10mg''"
  by (simp add: py_def isspace_def clean_text_def strip_def isprintable_def)

text \<open>
  Claim C10. Whatever \<open>process_file\<close> is called on: when it returns \<open>True\<close> the analyzer
  has exactly one more report, at the end, named after the file; when it returns \<open>False\<close>
  the analyzer is the one it was called on.
\<close>

theorem process_file_record_iff_success:
  "process_file e now file self = (ok, self', msgs) \<Longrightarrow>
     (ok \<longrightarrow> (\<exists>r. report_name r = fname file \<and>
                  self' = self\<lparr>reports := reports self @ [r]\<rparr>)) \<and>
     (\<not> ok \<longrightarrow> self' = self)"
  by (drule process_file_cases) blast

theorem process_file_record_iff_success_witness:
  "process_file example_env (py ''2025-02-26T12:00:00'')
     \<lparr>fname = py ''note.txt'', fdata = py ''Plan: rest''\<rparr> init_analyzer =
     (True,
      init_analyzer\<lparr>reports :=
        [\<lparr>report_name = py ''note.txt'', report_content = py ''Plan: rest'',
          report_date = py ''2025-02-26T12:00:00'', report_type = py ''.txt'',
          key_findings =
            [(py ''diagnoses'', []), (py ''medications'', []), (py ''vitals'', []),
             (py ''lab_results'', []), (py ''recommendations'', [py ''rest''])],
          metadata = \<lparr>word_count = 2, character_count = 10, sentence_count = 1\<rparr>\<rparr>]\<rparr>,
      []) \<and>
   (\<exists>r. report_name r = py ''note.txt'' \<and>
        init_analyzer\<lparr>reports :=
          [\<lparr>report_name = py ''note.txt'', report_content = py ''Plan: rest'',
            report_date = py ''2025-02-26T12:00:00'', report_type = py ''.txt'',
            key_findings =
              [(py ''diagnoses'', []), (py ''medications'', []), (py ''vitals'', []),
               (py ''lab_results'', []), (py ''recommendations'', [py ''rest''])],
            metadata = \<lparr>word_count = 2, character_count = 10, sentence_count = 1\<rparr>\<rparr>]\<rparr> =
        init_analyzer\<lparr>reports := reports init_analyzer @ [r]\<rparr>)"
  using process_file_record_iff_success [OF example_note_processed] example_note_processed
  by simp

subsection \<open>The loop over the patterns\<close>

lemma collect_single_group:
  "collect acc (map (\<lambda>g. [Some g]) gs) =
     Inr (acc @ map (\<lambda>t. strip (sub_runs isspace 32 t))
                  (filter (\<lambda>t. 2 < length t) (map strip gs)))"
  by (induction gs arbitrary: acc) (auto simp: group1_def Let_def)

lemma extract_loop_other:
  "extract_loop e content ps f0 = Inr f \<Longrightarrow> c \<notin> fst ` set ps \<Longrightarrow> map_of f c = map_of f0 c"
proof (induction ps arbitrary: f0)
  case Nil
  then show ?case by simp
next
  case (Cons a ps)
  obtain c' p' where a: "a = (c', p')" by (cases a)
  from Cons.prems show ?case
    by (auto simp: a update_conv' split: sum.splits dest!: Cons.IH)
qed

lemma extract_loop_lookup:
  "extract_loop e content ps f0 = Inr f \<Longrightarrow> distinct (map fst ps) \<Longrightarrow>
   (c, p) \<in> set ps \<Longrightarrow> single_group e p content gs \<Longrightarrow>
     map_of f c = Some (map (\<lambda>t. strip (sub_runs isspace 32 t))
                          (filter (\<lambda>t. 2 < length t) (map strip gs)))"
proof (induction ps arbitrary: f0)
  case Nil
  then show ?case by simp
next
  case (Cons a ps)
  obtain c' p' where a: "a = (c', p')" by (cases a)
  show ?case
  proof (cases "(c, p) = a")
    case True
    with Cons.prems a have "c \<notin> fst ` set ps" and cp: "c' = c" "p' = p"
      by auto
    with Cons.prems(1,4) show ?thesis
      by (auto simp: a single_group_def collect_single_group update_conv'
               split: sum.splits dest!: extract_loop_other)
  next
    case False
    with Cons.prems have "(c, p) \<in> set ps" "distinct (map fst ps)"
      by auto
    with Cons.prems(1,4) show ?thesis
      by (auto simp: a split: sum.splits dest!: Cons.IH)
  qed
qed

lemma empty_findings_keys: "map fst empty_findings = categories"
  by (simp add: empty_findings_def categories_def)

lemma collect_returns_iff: "(\<exists>ts. collect acc ms = Inr ts) \<longleftrightarrow> list_all has_group1 ms"
proof (induction ms arbitrary: acc)
  case Nil
  show ?case by simp
next
  case (Cons m ms)
  show ?case
  proof (cases m)
    case Nil
    then show ?thesis by (simp add: group1_def has_group1_def)
  next
    case (Cons g rest)
    then show ?thesis
      using Cons.IH by (cases g) (simp_all add: group1_def has_group1_def Let_def)
  qed
qed

lemma extract_loop_returns_iff:
  "(\<exists>f. extract_loop e content ps f0 = Inr f) \<longleftrightarrow>
     (\<forall>(c, p) \<in> set ps. runs_through e p content)"
proof (induction ps arbitrary: f0)
  case Nil
  show ?case by simp
next
  case (Cons a ps)
  obtain c p where a: "a = (c, p)" by (cases a)
  show ?case
  proof (cases "re_finditer e p content IGNORECASE")
    case (Inl err)
    then show ?thesis by (simp add: a runs_through_def)
  next
    case (Inr ms)
    show ?thesis
    proof (cases "collect [] ms")
      case (Inl err)
      then have "\<not> list_all has_group1 ms"
        using collect_returns_iff [of "[]" ms] by simp
      with Inl Inr show ?thesis by (simp add: a runs_through_def)
    next
      case r: (Inr ts)
      then have "list_all has_group1 ms"
        using collect_returns_iff [of "[]" ms] by auto
      with r Inr Cons.IH [of "AList.update c ts f0"] show ?thesis
        by (simp add: a runs_through_def)
    qed
  qed
qed

lemma extract_loop_keys:
  "extract_loop e content ps f0 = Inr f \<Longrightarrow>
     set (map fst f) = set (map fst f0) \<union> fst ` set ps \<and>
     (fst ` set ps \<subseteq> set (map fst f0) \<longrightarrow> map fst f = map fst f0)"
proof (induction ps arbitrary: f0)
  case Nil
  then show ?case by simp
next
  case (Cons a ps)
  obtain c p where a: "a = (c, p)" by (cases a)
  from Cons.prems obtain ms ts where ms: "re_finditer e p content IGNORECASE = Inr ms"
    and ts: "collect [] ms = Inr ts"
    and r: "extract_loop e content ps (AList.update c ts f0) = Inr f"
    by (auto simp: a split: sum.splits)
  have k: "map fst (AList.update c ts f0) =
      (if c \<in> set (map fst f0) then map fst f0 else map fst f0 @ [c])"
    by (simp add: update_keys)
  from Cons.IH [OF r] k show ?case
    by (auto simp: a split: if_splits)
qed

lemma lazy_star_cont: "lazy_star f a s k = Some y \<Longrightarrow> \<exists>s'. k s' = Some y"
  by (induction s) (auto split: option.splits if_splits)

lemma rmatch_cont:
  "rmatch f r s c k = Some y \<Longrightarrow>
     \<exists>s' c'. k s' c' = Some y \<and> (map_of c n \<noteq> None \<or> binds n r \<longrightarrow> map_of c' n \<noteq> None)"
proof (induction r arbitrary: s c k)
  case Eps
  then show ?case by auto
next
  case (Atom a)
  then show ?case by (auto split: list.splits if_splits)
next
  case (LazyStar a)
  then have "lazy_star f a s (\<lambda>s'. k s' c) = Some y" by simp
  from lazy_star_cont [OF this] obtain s' where "k s' c = Some y" ..
  then show ?case by auto
next
  case AtEnd
  then show ?case by (auto split: if_splits)
next
  case (Group m r)
  from Group.prems have "rmatch f r s c
      (\<lambda>s' c'. k s' (AList.update m (take (length s - length s') s) c')) = Some y"
    by simp
  from Group.IH [OF this] obtain s' c' where
    k: "k s' (AList.update m (take (length s - length s') s) c') = Some y"
    and d: "map_of c n \<noteq> None \<or> binds n r \<longrightarrow> map_of c' n \<noteq> None"
    by blast
  from d have "map_of c n \<noteq> None \<or> binds n (Group m r) \<longrightarrow>
      map_of (AList.update m (take (length s - length s') s) c') n \<noteq> None"
    by (auto simp: update_conv')
  with k show ?case by blast
next
  case (Seq r1 r2)
  from Seq.prems have "rmatch f r1 s c (\<lambda>s' c'. rmatch f r2 s' c' k) = Some y"
    by simp
  from Seq.IH(1) [OF this] obtain s1 c1 where r2: "rmatch f r2 s1 c1 k = Some y"
    and d1: "map_of c n \<noteq> None \<or> binds n r1 \<longrightarrow> map_of c1 n \<noteq> None"
    by blast
  from Seq.IH(2) [OF r2] obtain s2 c2 where k: "k s2 c2 = Some y"
    and d2: "map_of c1 n \<noteq> None \<or> binds n r2 \<longrightarrow> map_of c2 n \<noteq> None"
    by blast
  from d1 d2 have "map_of c n \<noteq> None \<or> binds n (Seq r1 r2) \<longrightarrow> map_of c2 n \<noteq> None"
    by auto
  with k show ?case by blast
next
  case (Alt r1 r2)
  show ?case
  proof (cases "rmatch f r1 s c k")
    case None
    with Alt.prems have "rmatch f r2 s c k = Some y" by simp
    from Alt.IH(2) [OF this] show ?thesis by auto
  next
    case (Some z)
    with Alt.prems have "rmatch f r1 s c k = Some y" by simp
    from Alt.IH(1) [OF this] show ?thesis by auto
  qed
qed

lemma try_match_group:
  "try_match f r ma s = Some (n, c) \<Longrightarrow> binds 1 r \<Longrightarrow> map_of c 1 \<noteq> None"
  unfolding try_match_def
  by (drule rmatch_cont [where n = 1]) (auto split: if_splits)

lemma scan_group:
  "binds 1 r \<Longrightarrow> c \<in> set (scan f r k s) \<Longrightarrow> map_of c 1 \<noteq> None"
proof (induction f r k s rule: scan.induct)
  case (1 f r k)
  then show ?case by simp
next
  case (2 f r k x xs)
  then show ?case by simp
next
  case (3 f r)
  then show ?case
    by (auto split: option.splits dest: try_match_group try_match_group [OF sym])
next
  case (4 f r x xs)
  show ?case
  proof (cases "try_match f r False (x # xs)")
    case None
    with 4 show ?thesis by simp
  next
    case (Some a)
    obtain n c0 where a: "a = (n, c0)" by (cases a)
    have c0: "map_of c0 1 \<noteq> None"
      using Some a "4.prems"(1) by (auto dest: try_match_group)
    show ?thesis
    proof (cases n)
      case 0
      show ?thesis
      proof (cases "try_match f r True (x # xs)")
        case None
        with 4 Some a 0 c0 show ?thesis by auto
      next
        case s2: (Some b)
        obtain n' c1 where b: "b = (n', c1)" by (cases b)
        have "map_of c1 1 \<noteq> None"
          using s2 b "4.prems"(1) by (auto dest: try_match_group)
        with 4 Some a 0 c0 s2 b show ?thesis by auto
      qed
    next
      case (Suc m)
      with 4 Some a c0 show ?thesis by auto
    qed
  qed
qed

lemma always_group1_runs_through:
  assumes "always_group1 p" and "re_finditer e = python_finditer"
  shows "runs_through e p content"
proof -
  from assms(1) obtain n r where c: "re_compile p = Compiled n r" and n: "1 \<le> n" and b: "binds 1 r"
    by (auto simp: always_group1_def split: compiled.splits)
  from n have "1 < Suc n"
    by simp
  then have u: "[1..<Suc n] = 1 # [Suc 1..<Suc n]"
    by (rule upt_conv_Cons)
  have "has_group1 (groups_of n c')" if "c' \<in> set (scan IGNORECASE r 0 content)" for c'
  proof -
    from scan_group [OF b that] obtain g where "map_of c' 1 = Some g"
      by auto
    moreover have "groups_of n c' = map_of c' 1 # map (map_of c') [Suc 1..<Suc n]"
      by (simp only: groups_of_def u list.map)
    ultimately show ?thesis
      by (simp add: has_group1_def)
  qed
  then have "list_all has_group1 (map (groups_of n) (scan IGNORECASE r 0 content))"
    by (simp add: list_all_iff)
  then show ?thesis
    by (simp add: runs_through_def assms(2) python_finditer_def c)
qed

lemma default_patterns_always_group1: "\<forall>(c, p) \<in> set default_patterns. always_group1 p"
  by (simp add: default_patterns_def always_group1_def re_compile_def normal_step_def push_def
      close_frame_def py_def bs_def)

lemma runs_through_collect:
  "runs_through e p content \<Longrightarrow>
     \<exists>ms ts. re_finditer e p content IGNORECASE = Inr ms \<and> collect [] ms = Inr ts"
  using collect_returns_iff [of "[]"]
  by (auto simp: runs_through_def split: sum.splits)

lemma extract_loop_raises_first:
  "\<forall>(c, p) \<in> set ps. runs_through e p content \<Longrightarrow>
   re_finditer e pattern content IGNORECASE = Inl err \<Longrightarrow>
     extract_loop e content (ps @ (category, pattern) # qs) f0 = Inl err"
proof (induction ps arbitrary: f0)
  case Nil
  then show ?case by simp
next
  case (Cons a ps)
  obtain c p where a: "a = (c, p)" by (cases a)
  from Cons.prems have "runs_through e p content"
    by (simp add: a)
  from runs_through_collect [OF this] obtain ms ts
    where "re_finditer e p content IGNORECASE = Inr ms" "collect [] ms = Inr ts"
    by blast
  moreover from Cons.prems have "\<forall>(c, p) \<in> set ps. runs_through e p content"
    by simp
  ultimately show ?case
    using Cons.IH Cons.prems(2) by (simp add: a)
qed

lemma extract_loop_raises:
  "(category, pattern) \<in> set ps \<Longrightarrow> re_finditer e pattern content IGNORECASE = Inl err \<Longrightarrow>
     \<exists>err'. extract_loop e content ps f0 = Inl err'"
proof -
  assume m: "(category, pattern) \<in> set ps" and r: "re_finditer e pattern content IGNORECASE = Inl err"
  from r have "\<not> runs_through e pattern content"
    by (simp add: runs_through_def)
  with m have "\<not> (\<forall>(c, p) \<in> set ps. runs_through e p content)"
    by auto
  then have "\<not> (\<exists>f. extract_loop e content ps f0 = Inr f)"
    by (simp only: extract_loop_returns_iff not_False_eq_True)
  then show ?thesis
    by (cases "extract_loop e content ps f0") auto
qed

text \<open>
  Claim C2, as amended. For every text and every registry, \<open>extract_key_findings\<close>
  returns a mapping exactly when the text is empty or every pattern of the registry
  compiles and every match of every pattern has a group 1 that took part in the match;
  otherwise an exception leaves it. The keys of a returned mapping are the five fixed
  names and, on a non-empty text, the category names of the registry; they are exactly
  the five fixed names, in their fixed order, when the text is empty or every category
  name of the registry is one of the five. With an empty registry, and on the empty text
  with any registry, it returns the five names, each with the empty list. With the default
  registry, under the model of \<open>re\<close> above, it returns the five names on every text.
\<close>

theorem extract_key_findings_keys:
  "((\<exists>f. extract_key_findings e self content = Inr f) \<longleftrightarrow>
      content = [] \<or> (\<forall>(c, p) \<in> set (findings_patterns self). runs_through e p content)) \<and>
   (extract_key_findings e self content = Inr f \<longrightarrow>
      set (map fst f) =
        set categories \<union> (if content = [] then {} else fst ` set (findings_patterns self)) \<and>
      (content = [] \<or> fst ` set (findings_patterns self) \<subseteq> set categories \<longrightarrow>
         map fst f = categories)) \<and>
   extract_key_findings e (self\<lparr>findings_patterns := []\<rparr>) content = Inr empty_findings \<and>
   extract_key_findings e self [] = Inr empty_findings \<and>
   map fst empty_findings = categories \<and>
   (\<forall>c \<in> set categories. map_of empty_findings c = Some []) \<and>
   (re_finditer e = python_finditer \<longrightarrow>
      (\<exists>f. extract_key_findings e (self\<lparr>findings_patterns := default_patterns\<rparr>) content = Inr f \<and>
           map fst f = categories))"
proof (intro conjI impI)
  show "(\<exists>f. extract_key_findings e self content = Inr f) \<longleftrightarrow>
      content = [] \<or> (\<forall>(c, p) \<in> set (findings_patterns self). runs_through e p content)"
    by (cases "content = []") (simp_all add: extract_key_findings_def extract_loop_returns_iff)
next
  assume r: "extract_key_findings e self content = Inr f"
  show "set (map fst f) =
        set categories \<union> (if content = [] then {} else fst ` set (findings_patterns self))"
  proof (cases "content = []")
    case True
    with r show ?thesis
      by (auto simp: extract_key_findings_def empty_findings_keys simp flip: set_map)
  next
    case False
    with r have "extract_loop e content (findings_patterns self) empty_findings = Inr f"
      by (simp add: extract_key_findings_def)
    from extract_loop_keys [OF this] False show ?thesis
      by (simp add: empty_findings_keys)
  qed
next
  assume r: "extract_key_findings e self content = Inr f"
    and h: "content = [] \<or> fst ` set (findings_patterns self) \<subseteq> set categories"
  show "map fst f = categories"
  proof (cases "content = []")
    case True
    with r show ?thesis
      by (auto simp: extract_key_findings_def empty_findings_keys)
  next
    case False
    with r have "extract_loop e content (findings_patterns self) empty_findings = Inr f"
      by (simp add: extract_key_findings_def)
    from extract_loop_keys [OF this] False h show ?thesis
      by (simp add: empty_findings_keys)
  qed
next
  show "extract_key_findings e (self\<lparr>findings_patterns := []\<rparr>) content = Inr empty_findings"
    by (simp add: extract_key_findings_def)
next
  show "extract_key_findings e self [] = Inr empty_findings"
    by (simp add: extract_key_findings_def)
next
  show "map fst empty_findings = categories"
    by (rule empty_findings_keys)
next
  show "\<forall>c \<in> set categories. map_of empty_findings c = Some []"
    by (simp add: categories_def empty_findings_def py_def)
next
  assume p: "re_finditer e = python_finditer"
  let ?self = "self\<lparr>findings_patterns := default_patterns\<rparr>"
  have a: "\<forall>(c, p) \<in> set (findings_patterns ?self). runs_through e p content"
    using default_patterns_always_group1 always_group1_runs_through [OF _ p]
    by auto
  have k: "fst ` set default_patterns \<subseteq> set categories"
    by (simp add: default_patterns_def categories_def)
  show "\<exists>f. extract_key_findings e ?self content = Inr f \<and> map fst f = categories"
  proof (cases "content = []")
    case True
    then show ?thesis
      by (simp add: extract_key_findings_def empty_findings_keys)
  next
    case False
    from a obtain f where f: "extract_loop e content (findings_patterns ?self) empty_findings = Inr f"
      using extract_loop_returns_iff [of e content "findings_patterns ?self" empty_findings]
      by blast
    from extract_loop_keys [OF f] k have "map fst f = categories"
      by (simp add: empty_findings_keys)
    with f False show ?thesis
      by (simp add: extract_key_findings_def)
  qed
qed

text \<open>
  The default registry on the text "Plan: rest": its keys are the five names and its
  patterns run through, so the extractor returns, with the five keys.
\<close>

theorem extract_key_findings_keys_witness:
  "re_finditer example_env = python_finditer \<and>
   map fst (findings_patterns init_analyzer) = categories \<and>
   list_all (\<lambda>(c, p). runs_through example_env p (py ''Plan: rest''))
     (findings_patterns init_analyzer) \<and>
   extract_key_findings example_env init_analyzer (py ''Plan: rest'') =
     Inr [(py ''diagnoses'', []), (py ''medications'', []), (py ''vitals'', []),
          (py ''lab_results'', []), (py ''recommendations'', [py ''rest''])] \<and>
   map fst [(py ''diagnoses'', []), (py ''medications'', []), (py ''vitals'', []),
          (py ''lab_results'', []), (py ''recommendations'', [py ''rest''])] = categories"
proof -
  let ?f = "[(py ''diagnoses'', []), (py ''medications'', []), (py ''vitals'', []),
          (py ''lab_results'', []), (py ''recommendations'', [py ''rest''])]"
  have p: "re_finditer example_env = python_finditer"
    by (simp add: example_env_def)
  have k: "map fst (findings_patterns init_analyzer) = categories"
    by (simp add: init_analyzer_def default_patterns_def categories_def)
  have a: "\<forall>(c, p) \<in> set (findings_patterns init_analyzer).
      runs_through example_env p (py ''Plan: rest'')"
    using default_patterns_always_group1 always_group1_runs_through [OF _ p]
    by (auto simp: init_analyzer_def)
  then have l: "list_all (\<lambda>(c, p). runs_through example_env p (py ''Plan: rest''))
     (findings_patterns init_analyzer)"
    by (simp add: list_all_iff)
  have x: "extract_key_findings example_env init_analyzer (py ''Plan: rest'') = Inr ?f"
    by (simp add: re_eval run_eval)
  have s: "fst ` set (findings_patterns init_analyzer) \<subseteq> set categories"
    using k by (metis order_refl set_map)
  note t = extract_key_findings_keys [of example_env init_analyzer "py ''Plan: rest''" ?f]
  from t x s have "map fst ?f = categories"
    by blast
  with p k l x show ?thesis
    by (intro conjI)
qed

text \<open>
  Two registries on which the claim as stated fails; they are registries of the analyzer
  that \<open>extract_key_findings\<close> is called on, as the settings page or a loaded
  configuration assigns them to \<open>findings_patterns\<close> (the handler \<open>process_button\<close> itself
  calls it on a fresh analyzer). With a pattern that does not compile the extractor raises
  and returns no mapping. With the default patterns and one more category the result has
  a sixth key.
\<close>

theorem extract_key_findings_keys_counterexample:
  "extract_key_findings example_env
     (init_analyzer\<lparr>findings_patterns := [(py ''diagnoses'', py ''('')]\<rparr>)
     (py ''Plan: rest'') = Inl ReError \<and>
   extract_key_findings example_env
     (init_analyzer\<lparr>findings_patterns :=
        default_patterns @ [(py ''allergies'', py ''allergies:(.*?)$'')]\<rparr>)
     (py ''allergies: peanuts'') =
     Inr [(py ''diagnoses'', []), (py ''medications'', []), (py ''vitals'', []),
          (py ''lab_results'', []), (py ''recommendations'', []),
          (py ''allergies'', [py ''peanuts''])] \<and>
   py ''allergies'' \<notin> set categories"
  by (simp add: re_eval run_eval categories_def)

text \<open>
  Claim C6. Let the registry be a dict (no category twice) and let one of its patterns
  compile, with matches that have one group each, \<open>gs\<close> being the group texts in scan
  order. When the extractor returns on a non-empty text, the list of that category is
  obtained from \<open>gs\<close> by trimming every text, dropping those of fewer than three
  characters, and collapsing the whitespace runs of the others to one space (and trimming
  again). Order and duplicates are those of \<open>gs\<close>. On the empty text nothing is matched
  and every list is empty.
\<close>

theorem candidates_in_scan_order:
  assumes "distinct (map fst (findings_patterns self))"
    and "(category, pattern) \<in> set (findings_patterns self)"
    and "single_group e pattern content gs"
    and "extract_key_findings e self content = Inr f"
  shows "(content \<noteq> [] \<longrightarrow>
           map_of f category =
             Some (map (\<lambda>t. strip (sub_runs isspace 32 t))
                     (filter (\<lambda>t. 2 < length t) (map strip gs)))) \<and>
         (content = [] \<longrightarrow> f = empty_findings)"
proof (intro conjI impI)
  assume "content \<noteq> []"
  with assms(4) have "extract_loop e content (findings_patterns self) empty_findings = Inr f"
    by (simp add: extract_key_findings_def)
  from extract_loop_lookup [OF this assms(1,2,3)]
  show "map_of f category =
          Some (map (\<lambda>t. strip (sub_runs isspace 32 t))
                  (filter (\<lambda>t. 2 < length t) (map strip gs)))" .
next
  assume "content = []"
  with assms(4) show "f = empty_findings"
    by (simp add: extract_key_findings_def)
qed

theorem candidates_in_scan_order_witness:
  "distinct (map fst [(py ''recommendations'', py ''plan:(.*?)(?:'' @ bs @ py ''n|$)'')]) \<and>
   single_group example_env (py ''plan:(.*?)(?:'' @ bs @ py ''n|$)'')
     (py ''plan: rest  well\<newline>plan: ok\<newline>Plan: rest well'')
     [py '' rest  well'', py '' ok'', py '' rest well''] \<and>
   extract_key_findings example_env
     (init_analyzer\<lparr>findings_patterns :=
        [(py ''recommendations'', py ''plan:(.*?)(?:'' @ bs @ py ''n|$)'')]\<rparr>)
     (py ''plan: rest  well\<newline>plan: ok\<newline>Plan: rest well'') =
     Inr [(py ''diagnoses'', []), (py ''medications'', []), (py ''vitals'', []),
          (py ''lab_results'', []),
          (py ''recommendations'', [py ''rest well'', py ''rest well''])] \<and>
   map_of [(py ''diagnoses'', []), (py ''medications'', []), (py ''vitals'', []),
          (py ''lab_results'', []),
          (py ''recommendations'', [py ''rest well'', py ''rest well''])]
     (py ''recommendations'') =
     Some (map (\<lambda>t. strip (sub_runs isspace 32 t))
            (filter (\<lambda>t. 2 < length t)
               (map strip [py '' rest  well'', py '' ok'', py '' rest well''])))"
proof -
  let ?self = "init_analyzer\<lparr>findings_patterns :=
        [(py ''recommendations'', py ''plan:(.*?)(?:'' @ bs @ py ''n|$)'')]\<rparr>"
  let ?content = "py ''plan: rest  well\<newline>plan: ok\<newline>Plan: rest well''"
  have d: "distinct (map fst (findings_patterns ?self))"
    by simp
  have m: "(py ''recommendations'', py ''plan:(.*?)(?:'' @ bs @ py ''n|$)'')
      \<in> set (findings_patterns ?self)"
    by simp
  have g: "single_group example_env (py ''plan:(.*?)(?:'' @ bs @ py ''n|$)'') ?content
      [py '' rest  well'', py '' ok'', py '' rest well'']"
    by (simp add: single_group_def example_env_def re_eval)
  have x: "extract_key_findings example_env ?self ?content =
     Inr [(py ''diagnoses'', []), (py ''medications'', []), (py ''vitals'', []),
          (py ''lab_results'', []),
          (py ''recommendations'', [py ''rest well'', py ''rest well''])]"
    by (simp add: re_eval run_eval)
  have n: "?content \<noteq> []"
    by (simp add: py_def)
  from candidates_in_scan_order [OF d m g x] n d g x show ?thesis
    by simp
qed

text \<open>
  Claim C7, as amended. Let \<open>process_file\<close> be called on an analyzer whose registry holds
  a pattern that does not compile, for a file of a supported format whose reader returns a
  text that is not empty after normalisation. Then it returns \<open>False\<close>, shows an error
  with the name of the file and leaves the analyzer as it was; the error shown is the one
  of that pattern when every pattern before it in the registry runs through (compiles,
  with a group 1 that took part in every match). When the normalised text is empty,
  \<open>process_file\<close> returns \<open>True\<close> and appends the record of an empty text whatever the
  registry holds, no pattern being compiled. Whenever \<open>process_file\<close> returns \<open>False\<close> on a
  file, the loop over the batch, and the handler of the button with it, ends with the
  analyzer and the list of processed files of the batch without that file. The handler
  does not read the analyzer of the session: it processes with the default patterns.
\<close>

theorem invalid_pattern_fails_file:
  "(read_content e (lower e (suffix (fname upl))) upl = Some (Inr raw) \<and>
    clean_text e raw \<noteq> [] \<and>
    (category, pattern) \<in> set (findings_patterns self) \<and>
    re_finditer e pattern (clean_text e raw) IGNORECASE = Inl err \<longrightarrow>
      (\<exists>err'. process_file e now upl self =
                (False, self, [Error_processing_file (fname upl) err'])) \<and>
      (\<forall>ps qs. findings_patterns self = ps @ (category, pattern) # qs \<and>
               (\<forall>(c, p) \<in> set ps. runs_through e p (clean_text e raw)) \<longrightarrow>
               process_file e now upl self =
                 (False, self, [Error_processing_file (fname upl) err]))) \<and>
   (read_content e (lower e (suffix (fname upl))) upl = Some (Inr raw) \<and>
    clean_text e raw = [] \<longrightarrow>
      process_file e now upl self =
        (True,
         self\<lparr>reports := reports self @
           [\<lparr>report_name = fname upl, report_content = [], report_date = now,
             report_type = lower e (suffix (fname upl)), key_findings = empty_findings,
             metadata = \<lparr>word_count = 0, character_count = 0, sentence_count = 0\<rparr>\<rparr>]\<rparr>,
         [])) \<and>
   (\<not> fst (process_file e now upl (session_analyzer s)) \<longrightarrow>
      session_analyzer (process_files e (before @ (now, upl) # after) s) =
        session_analyzer (process_files e (before @ after) s) \<and>
      processed_files (process_files e (before @ (now, upl) # after) s) =
        processed_files (process_files e (before @ after) s)) \<and>
   (\<not> fst (process_file e now upl init_analyzer) \<longrightarrow>
      session_analyzer (process_button e (before @ (now, upl) # after) s) =
        session_analyzer (process_button e (before @ after) s) \<and>
      processed_files (process_button e (before @ (now, upl) # after) s) =
        processed_files (process_button e (before @ after) s)) \<and>
   process_button e uploaded (s\<lparr>session_analyzer := edited\<rparr>) = process_button e uploaded s"
proof (intro conjI impI allI)
  assume h: "read_content e (lower e (suffix (fname upl))) upl = Some (Inr raw) \<and>
    clean_text e raw \<noteq> [] \<and>
    (category, pattern) \<in> set (findings_patterns self) \<and>
    re_finditer e pattern (clean_text e raw) IGNORECASE = Inl err"
  then obtain err' where
    "extract_loop e (clean_text e raw) (findings_patterns self) empty_findings = Inl err'"
    using extract_loop_raises by blast
  with h have "process_file e now upl self =
      (False, self, [Error_processing_file (fname upl) err'])"
    by (simp add: process_file_def extract_key_findings_def)
  then show "\<exists>err'. process_file e now upl self =
      (False, self, [Error_processing_file (fname upl) err'])" ..
next
  fix ps qs
  assume h: "read_content e (lower e (suffix (fname upl))) upl = Some (Inr raw) \<and>
    clean_text e raw \<noteq> [] \<and>
    (category, pattern) \<in> set (findings_patterns self) \<and>
    re_finditer e pattern (clean_text e raw) IGNORECASE = Inl err"
    and g: "findings_patterns self = ps @ (category, pattern) # qs \<and>
               (\<forall>(c, p) \<in> set ps. runs_through e p (clean_text e raw))"
  from g h have
    "extract_loop e (clean_text e raw) (findings_patterns self) empty_findings = Inl err"
    using extract_loop_raises_first [of ps e "clean_text e raw" pattern err category qs]
    by simp
  with h show "process_file e now upl self =
      (False, self, [Error_processing_file (fname upl) err])"
    by (simp add: process_file_def extract_key_findings_def)
next
  assume "read_content e (lower e (suffix (fname upl))) upl = Some (Inr raw) \<and>
    clean_text e raw = []"
  then show "process_file e now upl self =
        (True,
         self\<lparr>reports := reports self @
           [\<lparr>report_name = fname upl, report_content = [], report_date = now,
             report_type = lower e (suffix (fname upl)), key_findings = empty_findings,
             metadata = \<lparr>word_count = 0, character_count = 0, sentence_count = 0\<rparr>\<rparr>]\<rparr>,
         [])"
    by (simp add: process_file_def extract_key_findings_def split_ws.simps)
next
  assume "\<not> fst (process_file e now upl (session_analyzer s))"
  from process_files_skip_failed [OF this]
  show "session_analyzer (process_files e (before @ (now, upl) # after) s) =
        session_analyzer (process_files e (before @ after) s)"
    and "processed_files (process_files e (before @ (now, upl) # after) s) =
        processed_files (process_files e (before @ after) s)"
    by blast+
next
  assume "\<not> fst (process_file e now upl init_analyzer)"
  then have "\<not> fst (process_file e now upl
      (session_analyzer (s\<lparr>session_analyzer := init_analyzer, processed_files := []\<rparr>)))"
    by simp
  from process_files_skip_failed [OF this]
  show "session_analyzer (process_button e (before @ (now, upl) # after) s) =
        session_analyzer (process_button e (before @ after) s)"
    and "processed_files (process_button e (before @ (now, upl) # after) s) =
        processed_files (process_button e (before @ after) s)"
    unfolding process_button_def by blast+
next
  show "process_button e uploaded (s\<lparr>session_analyzer := edited\<rparr>) = process_button e uploaded s"
    by (simp add: process_button_def)
qed

text \<open>
  A file processed on a registry whose second pattern does not compile; and, in the
  handler, a file that fails to decode, beside a file that is processed.
\<close>

theorem invalid_pattern_fails_file_witness:
  "process_file example_env (py ''2025-02-26T12:00:00'')
     \<lparr>fname = py ''note.txt'', fdata = py ''Plan: rest''\<rparr>
     \<lparr>reports = [], summary = None,
      findings_patterns =
        [(py ''diagnoses'', py ''diagnosis:(.*?)$''), (py ''medications'', py ''('')]\<rparr> =
     (False,
      \<lparr>reports = [], summary = None,
       findings_patterns =
         [(py ''diagnoses'', py ''diagnosis:(.*?)$''), (py ''medications'', py ''('')]\<rparr>,
      [Error_processing_file (py ''note.txt'') ReError]) \<and>
   process_file example_env (py ''2025-02-26T12:00:00'')
     \<lparr>fname = py ''bad.txt'', fdata = [255]\<rparr> init_analyzer =
     (False, init_analyzer, [Error_processing_file (py ''bad.txt'') UnicodeDecodeError]) \<and>
   processed_files
     (process_button example_env
        [(py ''2025-02-26T12:00:00'', \<lparr>fname = py ''bad.txt'', fdata = [255]\<rparr>),
         (py ''2025-02-26T12:00:00'', \<lparr>fname = py ''note.txt'', fdata = py ''Plan: rest''\<rparr>)]
        \<lparr>session_analyzer = init_analyzer, processed_files = [], shown = []\<rparr>) =
     [py ''note.txt'']"
proof -
  let ?now = "py ''2025-02-26T12:00:00''"
  let ?note = "\<lparr>fname = py ''note.txt'', fdata = py ''Plan: rest''\<rparr>"
  let ?bad = "\<lparr>fname = py ''bad.txt'', fdata = [255]\<rparr>"
  let ?self = "\<lparr>reports = [], summary = None,
      findings_patterns =
        [(py ''diagnoses'', py ''diagnosis:(.*?)$''), (py ''medications'', py ''('')]\<rparr>"
  let ?s = "\<lparr>session_analyzer = init_analyzer, processed_files = [], shown = []\<rparr>"
  have c: "clean_text example_env (py ''Plan: rest'') = py ''Plan: rest''"
    by (simp add: run_eval py_def isspace_def)
  have a1: "read_content example_env (lower example_env (suffix (fname ?note))) ?note =
      Some (Inr (py ''Plan: rest''))"
    by (simp add: run_eval py_def)
  have a2: "clean_text example_env (py ''Plan: rest'') \<noteq> []"
    by (simp add: c) (simp add: py_def)
  have a3: "(py ''medications'', py ''('') \<in> set (findings_patterns ?self)"
    by simp
  have a4: "re_finditer example_env (py ''('')
      (clean_text example_env (py ''Plan: rest'')) IGNORECASE = Inl ReError"
    by (simp add: example_env_def re_eval)
  have a5: "findings_patterns ?self =
      [(py ''diagnoses'', py ''diagnosis:(.*?)$'')] @ (py ''medications'', py ''('') # []"
    by simp
  have "always_group1 (py ''diagnosis:(.*?)$'')"
    by (simp add: always_group1_def re_compile_def normal_step_def push_def close_frame_def
        py_def)
  then have a6: "\<forall>(c, p) \<in> set [(py ''diagnoses'', py ''diagnosis:(.*?)$'')].
      runs_through example_env p (clean_text example_env (py ''Plan: rest''))"
    using always_group1_runs_through [of _ example_env] by (simp add: example_env_def)
  note t = invalid_pattern_fails_file [where e = example_env and now = ?now and self = ?self
      and raw = "py ''Plan: rest''" and category = "py ''medications''" and pattern = "py ''(''"
      and err = ReError and s = ?s and before = "[]" and after = "[(?now, ?note)]"
      and uploaded = "[]" and edited = init_analyzer]
  from t [where upl = ?note] a1 a2 a3 a4 a5 a6 have w1: "process_file example_env ?now ?note ?self =
      (False, ?self, [Error_processing_file (fname ?note) ReError])"
    by blast
  have w2: "process_file example_env ?now ?bad init_analyzer =
     (False, init_analyzer, [Error_processing_file (py ''bad.txt'') UnicodeDecodeError])"
    by (simp add: run_eval py_def)
  then have "\<not> fst (process_file example_env ?now ?bad init_analyzer)"
    by simp
  with t [where upl = ?bad] have "processed_files (process_button example_env ([] @ (?now, ?bad) # [(?now, ?note)]) ?s) =
      processed_files (process_button example_env ([] @ [(?now, ?note)]) ?s)"
    by blast
  moreover have "processed_files (process_button example_env [(?now, ?note)] ?s) = [py ''note.txt'']"
    by (simp add: process_button_def example_note_processed)
  ultimately have w3: "processed_files (process_button example_env [(?now, ?bad), (?now, ?note)] ?s) =
      [py ''note.txt'']"
    by (simp only: append_Nil)
  from w1 w2 w3 show ?thesis
    by simp
qed

text \<open>
  The claim as stated fails on an empty file: it is processed with success, and a record
  is appended, on an analyzer whose registry holds a pattern that does not compile.
\<close>

theorem invalid_pattern_empty_file_counterexample:
  "re_finditer example_env (py ''('') [] IGNORECASE = Inl ReError \<and>
   process_file example_env (py ''2025-02-26T12:00:00'')
     \<lparr>fname = py ''empty.txt'', fdata = []\<rparr>
     \<lparr>reports = [], summary = None, findings_patterns = [(py ''diagnoses'', py ''('')]\<rparr> =
   (True,
    \<lparr>reports =
       [\<lparr>report_name = py ''empty.txt'', report_content = [],
         report_date = py ''2025-02-26T12:00:00'', report_type = py ''.txt'',
         key_findings =
           [(py ''diagnoses'', []), (py ''medications'', []), (py ''vitals'', []),
            (py ''lab_results'', []), (py ''recommendations'', [])],
         metadata = \<lparr>word_count = 0, character_count = 0, sentence_count = 0\<rparr>\<rparr>],
     summary = None, findings_patterns = [(py ''diagnoses'', py ''('')]\<rparr>,
    [])"
  by (simp add: re_eval run_eval)

text \<open>
  Claim C8. Let the lower-cased suffix of the name of the file be none of \<open>.pdf\<close>,
  \<open>.txt\<close>, \<open>.doc\<close>, \<open>.docx\<close>. Then \<open>process_file\<close> returns \<open>False\<close>, shows the warning
  with that suffix and leaves the analyzer as it was; the result is the same whatever the
  readers, the matcher and the tokenizer are, none of them being called; and in a batch
  the analyzer and the list of processed files end as if the file had not been in the
  batch. The suffixes \<open>.doc\<close> and \<open>.docx\<close> are read by the same function.
\<close>

theorem unsupported_format_skipped:
  assumes "lower e (suffix (fname file)) \<notin> {py ''.pdf'', py ''.txt'', py ''.doc'', py ''.docx''}"
  shows "process_file e now file self =
           (False, self, [Unsupported_file_format (lower e (suffix (fname file)))]) \<and>
         process_file (e\<lparr>re_finditer := rf, PdfReader := pr, Document := dr,
                          decode_utf8 := du, sent_tokenize := tk\<rparr>) now file self =
           process_file e now file self \<and>
         session_analyzer (process_files e (before @ (now, file) # after) s) =
           session_analyzer (process_files e (before @ after) s) \<and>
         processed_files (process_files e (before @ (now, file) # after) s) =
           processed_files (process_files e (before @ after) s) \<and>
         read_content e (py ''.doc'') other = Some (extract_docx_content e other) \<and>
         read_content e (py ''.docx'') other = Some (extract_docx_content e other)"
proof -
  have r: "\<And>e'. lower e' (suffix (fname file)) = lower e (suffix (fname file)) \<Longrightarrow>
      process_file e' now file self =
        (False, self, [Unsupported_file_format (lower e (suffix (fname file)))])" for self
    using assms by (simp add: process_file_def read_content_def)
  have "\<not> fst (process_file e now file (session_analyzer s))"
    by (simp add: r)
  from process_files_skip_failed [OF this] show ?thesis
    by (simp add: r lower_def) (simp add: read_content_def py_def)
qed

theorem unsupported_format_skipped_witness:
  "lower example_env (suffix (fname \<lparr>fname = py ''report.xls'', fdata = py ''Plan: rest''\<rparr>))
     \<notin> {py ''.pdf'', py ''.txt'', py ''.doc'', py ''.docx''} \<and>
   process_file example_env (py ''2025-02-26T12:00:00'')
     \<lparr>fname = py ''report.xls'', fdata = py ''Plan: rest''\<rparr> init_analyzer =
     (False, init_analyzer, [Unsupported_file_format (py ''.xls'')]) \<and>
   processed_files
     (process_files example_env
        [(py ''2025-02-26T12:00:00'', \<lparr>fname = py ''report.xls'', fdata = py ''Plan: rest''\<rparr>),
         (py ''2025-02-26T12:00:00'', \<lparr>fname = py ''note.txt'', fdata = py ''Plan: rest''\<rparr>)]
        \<lparr>session_analyzer = init_analyzer, processed_files = [], shown = []\<rparr>) =
     [py ''note.txt'']"
proof -
  let ?xls = "\<lparr>fname = py ''report.xls'', fdata = py ''Plan: rest''\<rparr>"
  let ?note = "\<lparr>fname = py ''note.txt'', fdata = py ''Plan: rest''\<rparr>"
  let ?now = "py ''2025-02-26T12:00:00''"
  let ?s = "\<lparr>session_analyzer = init_analyzer, processed_files = [], shown = []\<rparr>"
  have x: "lower example_env (suffix (fname ?xls)) = py ''.xls''"
    by (simp add: example_xls)
  have h: "lower example_env (suffix (fname ?xls))
      \<notin> {py ''.pdf'', py ''.txt'', py ''.doc'', py ''.docx''}"
    unfolding x by (simp add: py_def)
  have n: "processed_files (process_files example_env [(?now, ?note)] ?s) = [py ''note.txt'']"
    by (simp add: example_note_processed)
  note t = unsupported_format_skipped [OF h, where now = ?now and self = init_analyzer
      and rf = "re_finditer example_env" and pr = "PdfReader example_env"
      and dr = "Document example_env" and du = "decode_utf8 example_env"
      and tk = "sent_tokenize example_env" and before = "[]" and after = "[(?now, ?note)]"
      and s = ?s and other = ?xls]
  from t have "process_file example_env ?now ?xls init_analyzer =
      (False, init_analyzer, [Unsupported_file_format (lower example_env (suffix (fname ?xls)))])"
    by (rule conjunct1)
  then have c1: "process_file example_env ?now ?xls init_analyzer =
      (False, init_analyzer, [Unsupported_file_format (py ''.xls'')])"
    by (simp only: x)
  from t have "processed_files (process_files example_env ([] @ (?now, ?xls) # [(?now, ?note)]) ?s) =
      processed_files (process_files example_env ([] @ [(?now, ?note)]) ?s)"
    by blast
  then have c2: "processed_files (process_files example_env [(?now, ?xls), (?now, ?note)] ?s) =
      [py ''note.txt'']"
    by (simp only: append_Nil n)
  from h c1 c2 show ?thesis
    by (intro conjI)
qed

subsection \<open>The summary\<close>

lemma update_sets_ok:
  "distinct (map fst sets) \<Longrightarrow> \<forall>(c, items) \<in> set kf. c \<in> fst ` set sets \<Longrightarrow>
   \<exists>sets'. update_sets sets kf = Inr sets' \<and> map fst sets' = map fst sets \<and>
     (\<forall>c. map_of sets' c =
        map_option (\<lambda>S. S \<union> {x. \<exists>items. (c, items) \<in> set kf \<and> x \<in> set items})
          (map_of sets c))"
proof (induction kf arbitrary: sets)
  case Nil
  show ?case by (simp add: option.map_ident)
next
  case (Cons a kf)
  obtain c0 items0 where a: "a = (c0, items0)" by (cases a)
  from Cons.prems have "c0 \<in> fst ` set sets" by (simp add: a)
  then obtain S where S: "map_of sets c0 = Some S"
    by (metis domD dom_map_of_conv_image_fst)
  define sets1 where "sets1 = AList.update c0 (S \<union> set items0) sets"
  have k: "map fst sets1 = map fst sets"
    using \<open>c0 \<in> fst ` set sets\<close> by (simp add: sets1_def update_keys)
  then have "fst ` set sets1 = fst ` set sets"
    by (metis set_map)
  with Cons.prems k have "distinct (map fst sets1)"
    and "\<forall>(c, items) \<in> set kf. c \<in> fst ` set sets1"
    by auto
  from Cons.IH [OF this] obtain sets' where r: "update_sets sets1 kf = Inr sets'"
    and k': "map fst sets' = map fst sets1"
    and m: "\<And>c. map_of sets' c =
        map_option (\<lambda>S. S \<union> {x. \<exists>items. (c, items) \<in> set kf \<and> x \<in> set items})
          (map_of sets1 c)"
    by blast
  have "map_of sets' c =
        map_option (\<lambda>S. S \<union> {x. \<exists>items. (c, items) \<in> set (a # kf) \<and> x \<in> set items})
          (map_of sets c)" for c
  proof (cases "c = c0")
    case True
    have "S \<union> set items0 \<union> {x. \<exists>items. (c0, items) \<in> set kf \<and> x \<in> set items} =
          S \<union> {x. \<exists>items. (c0, items) \<in> set (a # kf) \<and> x \<in> set items}"
      by (auto simp: a)
    then show ?thesis
      by (simp add: m True sets1_def update_conv' S)
  next
    case False
    then have "{x. \<exists>items. (c, items) \<in> set (a # kf) \<and> x \<in> set items} =
               {x. \<exists>items. (c, items) \<in> set kf \<and> x \<in> set items}"
      by (auto simp: a)
    then show ?thesis
      using False by (simp add: m sets1_def update_conv')
  qed
  with r k k' show ?case
    by (simp add: a S sets1_def)
qed

lemma union_reports_ok:
  "distinct (map fst sets) \<Longrightarrow>
   \<forall>r \<in> set rs. \<forall>(c, items) \<in> set (key_findings r). c \<in> fst ` set sets \<Longrightarrow>
   \<exists>sets'. union_reports sets rs = Inr sets' \<and> map fst sets' = map fst sets \<and>
     (\<forall>c. map_of sets' c =
        map_option
          (\<lambda>S. S \<union> {x. \<exists>r \<in> set rs. \<exists>items. (c, items) \<in> set (key_findings r) \<and> x \<in> set items})
          (map_of sets c))"
proof (induction rs arbitrary: sets)
  case Nil
  show ?case by (simp add: option.map_ident)
next
  case (Cons r rs)
  from Cons.prems have "\<forall>(c, items) \<in> set (key_findings r). c \<in> fst ` set sets"
    by simp
  from update_sets_ok [OF Cons.prems(1) this] obtain sets1
    where r1: "update_sets sets (key_findings r) = Inr sets1"
      and k1: "map fst sets1 = map fst sets"
      and m1: "\<And>c. map_of sets1 c =
        map_option (\<lambda>S. S \<union> {x. \<exists>items. (c, items) \<in> set (key_findings r) \<and> x \<in> set items})
          (map_of sets c)"
    by blast
  from k1 have "fst ` set sets1 = fst ` set sets"
    by (metis set_map)
  with Cons.prems k1 have "distinct (map fst sets1)"
    and "\<forall>r \<in> set rs. \<forall>(c, items) \<in> set (key_findings r). c \<in> fst ` set sets1"
    by auto
  from Cons.IH [OF this] obtain sets' where r2: "union_reports sets1 rs = Inr sets'"
    and k2: "map fst sets' = map fst sets1"
    and m2: "\<And>c. map_of sets' c =
        map_option
          (\<lambda>S. S \<union> {x. \<exists>r \<in> set rs. \<exists>items. (c, items) \<in> set (key_findings r) \<and> x \<in> set items})
          (map_of sets1 c)"
    by blast
  have "map_of sets' c =
        map_option
          (\<lambda>S. S \<union> {x. \<exists>r' \<in> set (r # rs). \<exists>items. (c, items) \<in> set (key_findings r') \<and> x \<in> set items})
          (map_of sets c)" for c
  proof -
    have "S \<union> {x. \<exists>items. (c, items) \<in> set (key_findings r) \<and> x \<in> set items} \<union>
            {x. \<exists>r \<in> set rs. \<exists>items. (c, items) \<in> set (key_findings r) \<and> x \<in> set items} =
          S \<union> {x. \<exists>r' \<in> set (r # rs). \<exists>items. (c, items) \<in> set (key_findings r') \<and> x \<in> set items}"
      for S
      by auto
    then show ?thesis
      by (simp add: m2 m1 option.map_comp comp_def)
  qed
  with r1 r2 k1 k2 show ?case
    by simp
qed

lemma finite_category_union:
  "finite {x. \<exists>r \<in> set rs. \<exists>items. (c, items) \<in> set (key_findings r) \<and> x \<in> set items}"
proof -
  have "{x. \<exists>r \<in> set rs. \<exists>items. (c, items) \<in> set (key_findings r) \<and> x \<in> set items} =
        (\<Union>r \<in> set rs. \<Union>p \<in> set (key_findings r). if fst p = c then set (snd p) else {})"
    apply (auto split: if_splits)
     apply force
    apply blast
    done
  then show ?thesis
    by simp
qed

lemma format_summary_ok:
  "summary self = Some s \<Longrightarrow> map fst (summary_findings s) = categories \<Longrightarrow>
     \<exists>text. format_summary e self = Inr text"
proof -
  assume s: "summary self = Some s" and k: "map fst (summary_findings s) = categories"
  have "\<exists>items. map_of (summary_findings s) c = Some items" if "c \<in> set categories" for c
    using that k by (metis domD dom_map_of_conv_image_fst set_map)
  then have "\<exists>t. format_category title s c = Inr t" if "c \<in> set categories" for c title
    using that by (fastforce simp: format_category_def lookup_def)
  then obtain t1 t2 t3 t4 t5 where
    "format_category (py ''### Diagnoses:'') s (py ''diagnoses'') = Inr t1"
    "format_category (py ''### Medications:'') s (py ''medications'') = Inr t2"
    "format_category (py ''### Vital Signs:'') s (py ''vitals'') = Inr t3"
    "format_category (py ''### Lab Results:'') s (py ''lab_results'') = Inr t4"
    "format_category (py ''### Recommendations:'') s (py ''recommendations'') = Inr t5"
    unfolding categories_def by (metis list.set_intros)
  then show ?thesis
    by (simp add: format_summary_def s)
qed

text \<open>
  Claim C3. Let the analyzer hold at least one report and let the findings of every report
  have categories among the five fixed names only. Then \<open>generate_summary\<close> returns, the
  summary it stores has exactly the five categories, and the list of each category is
  sorted in ascending lexicographic order, has no string twice, and has as its elements
  exactly the strings that occur in that category in some report: the set union over the
  reports, strings being compared for equality as they are.
\<close>

theorem summary_findings_are_sorted_unions:
  assumes "reports self \<noteq> []"
    and "\<forall>r \<in> set (reports self). \<forall>(c, items) \<in> set (key_findings r). c \<in> set categories"
  shows "\<exists>text s. generate_summary e self = Inr (text, self\<lparr>summary := Some s\<rparr>) \<and>
           map fst (summary_findings s) = categories \<and>
           (\<forall>c \<in> set categories. \<exists>l.
               map_of (summary_findings s) c = Some l \<and> sorted l \<and> distinct l \<and>
               set l = {x. \<exists>r \<in> set (reports self). \<exists>items.
                          (c, items) \<in> set (key_findings r) \<and> x \<in> set items})"
proof -
  let ?init = "map (\<lambda>c. (c, {})) categories :: (py_str \<times> py_str set) list"
  let ?U = "\<lambda>c. {x. \<exists>r \<in> set (reports self). \<exists>items.
                      (c, items) \<in> set (key_findings r) \<and> x \<in> set items}"
  have ki: "map fst ?init = categories"
    by (simp add: comp_def)
  have d: "distinct (map fst ?init)"
    unfolding ki by (simp add: categories_def py_def)
  have "fst ` set ?init = set categories"
    by (metis ki set_map)
  with assms(2) have "\<forall>r \<in> set (reports self). \<forall>(c, items) \<in> set (key_findings r).
      c \<in> fst ` set ?init"
    by simp
  from union_reports_ok [OF d this] obtain sets where u: "union_reports ?init (reports self) = Inr sets"
    and k: "map fst sets = categories"
    and m: "\<And>c. map_of sets c = map_option (\<lambda>S. S \<union> ?U c) (map_of ?init c)"
    unfolding ki by blast
  obtain avg where avg: "py_div e (sum_list (map (\<lambda>r. sentence_count (metadata r)) (reports self)))
      (length (reports self)) = Inr avg"
    using assms(1) by (simp add: py_div_def)
  define s where "s = \<lparr>total_reports = length (reports self),
      report_types = count_report_types self,
      report_dates = extract_report_dates self,
      summary_findings = map (\<lambda>(category, S). (category, sorted_list_of_set S)) sets,
      total_word_count = sum_list (map (\<lambda>r. word_count (metadata r)) (reports self)),
      avg_sentences_per_report = avg\<rparr>"
  have ks: "map fst (summary_findings s) = categories"
    using k by (simp add: s_def comp_def case_prod_unfold)
  from format_summary_ok [of "self\<lparr>summary := Some s\<rparr>" s e, OF _ ks]
  obtain out where f: "format_summary e (self\<lparr>summary := Some s\<rparr>) = Inr out"
    by auto
  have g: "generate_summary e self = Inr (out, self\<lparr>summary := Some s\<rparr>)"
    using assms(1) u avg f by (simp add: generate_summary_def Let_def s_def)
  have "\<exists>l. map_of (summary_findings s) c = Some l \<and> sorted l \<and> distinct l \<and> set l = ?U c"
    if "c \<in> set categories" for c
  proof -
    from that have "map_of ?init c = Some {}"
      by (simp add: map_of_map_restrict)
    then have "map_of sets c = Some (?U c)"
      by (simp add: m)
    then have "map_of (summary_findings s) c = Some (sorted_list_of_set (?U c))"
      by (simp add: s_def map_of_map)
    then show ?thesis
      using finite_category_union [of "reports self" c] by simp
  qed
  with g ks show ?thesis
    by blast
qed

text \<open>
  The example of the claim: two reports with the diagnoses \<open>["Flu"]\<close> and
  \<open>["Flu", "Cold"]\<close> give the summary diagnoses \<open>["Cold", "Flu"]\<close>.
\<close>

theorem summary_findings_are_sorted_unions_witness:
  "(\<exists>out s.
      generate_summary example_env
        \<lparr>reports =
           [\<lparr>report_name = py ''a.txt'', report_content = py ''Diagnosis: Flu'',
             report_date = py ''2025-02-26T12:00:00'', report_type = py ''.txt'',
             key_findings =
               [(py ''diagnoses'', [py ''Flu'']), (py ''medications'', []), (py ''vitals'', []),
                (py ''lab_results'', []), (py ''recommendations'', [])],
             metadata = \<lparr>word_count = 2, character_count = 14, sentence_count = 1\<rparr>\<rparr>,
            \<lparr>report_name = py ''b.txt'', report_content = py ''Diagnosis: Flu'',
             report_date = py ''2025-02-26T12:00:01'', report_type = py ''.txt'',
             key_findings =
               [(py ''diagnoses'', [py ''Flu'', py ''Cold'']), (py ''medications'', []),
                (py ''vitals'', []), (py ''lab_results'', []), (py ''recommendations'', [])],
             metadata = \<lparr>word_count = 2, character_count = 14, sentence_count = 1\<rparr>\<rparr>],
         summary = None, findings_patterns = default_patterns\<rparr> =
      Inr (out, s) \<and>
      map_option (\<lambda>s. map_of (summary_findings s) (py ''diagnoses'')) (summary s) =
        Some (Some [py ''Cold'', py ''Flu'']))"
proof -
  let ?r1 = "\<lparr>report_name = py ''a.txt'', report_content = py ''Diagnosis: Flu'',
             report_date = py ''2025-02-26T12:00:00'', report_type = py ''.txt'',
             key_findings =
               [(py ''diagnoses'', [py ''Flu'']), (py ''medications'', []), (py ''vitals'', []),
                (py ''lab_results'', []), (py ''recommendations'', [])],
             metadata = \<lparr>word_count = 2, character_count = 14, sentence_count = 1\<rparr>\<rparr>"
  let ?r2 = "\<lparr>report_name = py ''b.txt'', report_content = py ''Diagnosis: Flu'',
             report_date = py ''2025-02-26T12:00:01'', report_type = py ''.txt'',
             key_findings =
               [(py ''diagnoses'', [py ''Flu'', py ''Cold'']), (py ''medications'', []),
                (py ''vitals'', []), (py ''lab_results'', []), (py ''recommendations'', [])],
             metadata = \<lparr>word_count = 2, character_count = 14, sentence_count = 1\<rparr>\<rparr>"
  let ?self = "\<lparr>reports = [?r1, ?r2], summary = None, findings_patterns = default_patterns\<rparr>"
  have h1: "reports ?self \<noteq> []"
    by simp
  have h2: "\<forall>r \<in> set (reports ?self). \<forall>(c, items) \<in> set (key_findings r). c \<in> set categories"
    by (simp add: categories_def)
  from summary_findings_are_sorted_unions [OF h1 h2, of example_env]
  obtain out s l where g: "generate_summary example_env ?self = Inr (out, ?self\<lparr>summary := Some s\<rparr>)"
    and l: "map_of (summary_findings s) (py ''diagnoses'') = Some l"
    and p: "sorted l" "distinct l"
    and u: "set l = {x. \<exists>r \<in> set (reports ?self). \<exists>items.
                (py ''diagnoses'', items) \<in> set (key_findings r) \<and> x \<in> set items}"
    by (auto simp: categories_def)
  have "{x. \<exists>r \<in> set (reports ?self). \<exists>items.
                (py ''diagnoses'', items) \<in> set (key_findings r) \<and> x \<in> set items} =
        set [py ''Cold'', py ''Flu'']"
    by (auto simp: py_def)
  with u have "set l = set [py ''Cold'', py ''Flu'']"
    by simp
  moreover have "sorted [py ''Cold'', py ''Flu'']" "distinct [py ''Cold'', py ''Flu'']"
    by (simp_all add: py_def)
  ultimately have "l = [py ''Cold'', py ''Flu'']"
    using p by (metis sorted_distinct_set_unique)
  with g l show ?thesis
    by simp
qed

subsection \<open>Normalisation followed by extraction\<close>

text \<open>
  Claim C1 says that the text "Diagnosis: Hypertension", newline, "Medication: Lisinopril
  10mg", newline, gives the diagnoses \<open>["Hypertension"]\<close> and the medications
  \<open>["Lisinopril 10mg"]\<close>. The code gives another list of diagnoses: \<open>_clean_text\<close> replaces
  the newlines by spaces (its second substitution is on \<open>\s+\<close>, which matches them), so the
  lazy group of the diagnoses pattern, which ends at a newline or at the end of the text,
  runs to the end of the text.
\<close>

theorem scenario_default_patterns:
  "clean_text example_env
     (py ''Diagnosis: Hypertension\<newline>Medication: Lisinopril 10mg\<newline>'') =
     py ''Diagnosis: Hypertension Medication: Lisinopril 10mg'' \<and>
   extract_key_findings example_env init_analyzer
     (clean_text example_env
        (py ''Diagnosis: Hypertension\<newline>Medication: Lisinopril 10mg\<newline>'')) =
     Inr [(py ''diagnoses'', [py ''Hypertension Medication: Lisinopril 10mg'']),
          (py ''medications'', [py ''Lisinopril 10mg'']),
          (py ''vitals'', []), (py ''lab_results'', []), (py ''recommendations'', [])]"
  by (simp add: example_clean) (simp add: re_eval run_eval)

text \<open>So the result of the code is not the one of the claim.\<close>

theorem scenario_default_patterns_witness:
  "extract_key_findings example_env init_analyzer
     (clean_text example_env
        (py ''Diagnosis: Hypertension\<newline>Medication: Lisinopril 10mg\<newline>'')) \<noteq>
     Inr [(py ''diagnoses'', [py ''Hypertension'']),
          (py ''medications'', [py ''Lisinopril 10mg'']),
          (py ''vitals'', []), (py ''lab_results'', []), (py ''recommendations'', [])]"
proof -
  have "[py ''Hypertension Medication: Lisinopril 10mg''] \<noteq> [py ''Hypertension'']"
    by (simp add: py_def)
  with scenario_default_patterns [THEN conjunct2] show ?thesis
    by (simp only: sum.inject list.inject prod.inject) blast
qed


text \<open>
  Claim C4 says that \<open>_clean_text\<close> is idempotent. It is not: a character that is neither
  printable nor whitespace is removed after the whitespace runs have been collapsed, so
  the spaces on its two sides meet, and a second call collapses them.
\<close>

theorem clean_text_twice:
  "clean_text e (py ''BP:'' @ [32, 0, 32] @ py ''120/80'') = py ''BP:  120/80'' \<and>
   clean_text e (clean_text e (py ''BP:'' @ [32, 0, 32] @ py ''120/80'')) = py ''BP: 120/80''"
  by (simp add: py_def isspace_def clean_text_def strip_def isprintable_def)

theorem clean_text_twice_witness:
  "clean_text example_env (clean_text example_env (py ''BP:'' @ [32, 0, 32] @ py ''120/80'')) \<noteq>
     clean_text example_env (py ''BP:'' @ [32, 0, 32] @ py ''120/80'')"
proof -
  have "py ''BP: 120/80'' \<noteq> py ''BP:  120/80''"
    by (simp add: py_def)
  with clean_text_twice [of example_env] show ?thesis
    by metis
qed


text \<open>
  What does hold of the result of \<open>_clean_text\<close>: its only whitespace character is the
  space, so it has no newline, and it has no whitespace at its ends.
\<close>

lemma set_sub_runs: "set (sub_runs C r s) \<subseteq> {c \<in> set s. \<not> C c} \<union> {r}"
proof (induction C r s rule: sub_runs.induct)
  case (1 C r)
  show ?case by simp
next
  case (2 C r c cs)
  have "set (dropWhile C cs) \<subseteq> set cs"
    by (auto dest: set_dropWhileD)
  with 2 show ?case
    by (cases "C c") auto
qed

lemma set_strip: "set (strip s) \<subseteq> set s"
  unfolding strip_def by (auto dest!: set_dropWhileD)

lemma clean_text_whitespace:
  "c \<in> set (clean_text e x) \<Longrightarrow> isspace c \<Longrightarrow> c = 32"
proof -
  assume c: "c \<in> set (clean_text e x)" and w: "isspace c"
  then have "x \<noteq> []"
    by (auto simp: clean_text_def)
  with c have "c \<in> set (sub_runs isspace 32 (sub_runs (\<lambda>c. c = 10) 10 x))"
    using set_strip by (fastforce simp: clean_text_def Let_def)
  with set_sub_runs [of isspace 32] w show "c = 32"
    by blast
qed

lemma clean_text_no_newline: "10 \<notin> set (clean_text e x)"
  using clean_text_whitespace [of 10 e x] by (auto simp: isspace_def)

lemma strip_ends:
  "strip s = [] \<or> (\<not> isspace (hd (strip s)) \<and> \<not> isspace (last (strip s)))"
proof (cases "strip s = []")
  case True
  then show ?thesis by simp
next
  case False
  let ?t = "dropWhile isspace s"
  let ?u = "dropWhile isspace (rev ?t)"
  from False have u: "?u \<noteq> []"
    by (simp add: strip_def)
  have t: "?t \<noteq> []"
  proof
    assume a: "?t = []"
    have "?u = []" unfolding a by simp
    with u show False ..
  qed
  have "\<not> isspace (hd ?u)"
    using u by (rule hd_dropWhile)
  then have l: "\<not> isspace (last (strip s))"
    using u by (simp add: strip_def last_rev)
  have "rev ?t = takeWhile isspace (rev ?t) @ ?u"
    by simp
  then have "last (rev ?t) = last ?u"
    using u by (metis last_appendR)
  then have "hd ?t = last ?u"
    using t by (simp add: last_rev)
  moreover have "\<not> isspace (hd ?t)"
    using t by (rule hd_dropWhile)
  ultimately have "\<not> isspace (hd (strip s))"
    using u by (simp add: strip_def hd_rev)
  with l show ?thesis by simp
qed

lemma strip_strip: "strip (strip s) = strip s"
proof (cases "strip s = []")
  case True
  have "strip [] = []"
    by (simp add: strip_def)
  with True show ?thesis by simp
next
  case False
  with strip_ends [of s] have h: "\<not> isspace (hd (strip s))" and l: "\<not> isspace (last (strip s))"
    by auto
  from False h have "dropWhile isspace (strip s) = strip s"
    by (cases "strip s") auto
  moreover from False l have "dropWhile isspace (rev (strip s)) = rev (strip s)"
    by (cases "rev (strip s)") (auto simp: last_rev [symmetric] hd_rev)
  ultimately show ?thesis
    by (simp add: strip_def [of "strip s"])
qed

lemma clean_text_trimmed: "strip (clean_text e x) = clean_text e x"
  by (simp add: clean_text_def Let_def strip_strip) (simp add: strip_def)

text \<open>
  Claim C5 says that the result of \<open>_clean_text\<close> has no newline, no two consecutive
  spaces and no whitespace at its ends. Two consecutive spaces do occur, where a removed
  character stood between two spaces.
\<close>

theorem clean_text_doubled_space:
  "clean_text e (py ''Pulse'' @ [32, 7, 32] @ py ''72'') = py ''Pulse'' @ [32, 32] @ py ''72''"
  by (simp add: py_def isspace_def clean_text_def strip_def isprintable_def)

theorem clean_text_doubled_space_witness:
  "\<exists>u v. clean_text example_env (py ''Pulse'' @ [32, 7, 32] @ py ''72'') = u @ [32, 32] @ v"
  using clean_text_doubled_space [of example_env] by blast

end
